theory Spec2Isabelle
  imports Main "HOL-Library.Word"
begin

unbundle bit_operations_syntax

section \<open>Topology assembly of \<open>taller.cc\<close>\<close>

text \<open>
  The program is one function, \<open>main\<close>, which drives helper classes of the ns-3
  simulation library. The embedding keeps the statements of \<open>main\<close> in their order and
  threads one state record through them: the objects owned by the simulation library
  (nodes, channels, devices, interface addresses, positions, the scheduled stop) and the
  local variables of \<open>main\<close> (the address helpers, the node and device containers, the
  random generator).

  Statements that only tune logging, defaults of applications that are never installed,
  the time resolution, the wifi rate manager and the MAC type change none of the state
  modelled here and are left out.
\<close>

subsection \<open>Machine integers and addresses\<close>

type_synonym uint32_t = "32 word"
type_synonym Ipv4Address = "32 word"
type_synonym Ipv4Mask = "32 word"

text \<open>The dotted quad \<open>a.b.c.d\<close> of the string literals passed to \<open>SetBase\<close>.\<close>

definition ipv4 :: "uint32_t \<Rightarrow> uint32_t \<Rightarrow> uint32_t \<Rightarrow> uint32_t \<Rightarrow> Ipv4Address" where
  "ipv4 a b c d = ((a * 256 + b) * 256 + c) * 256 + d"

text \<open>A subnet is a network address with its mask; it stands for the addresses that the
  mask maps to the network address.\<close>

type_synonym Subnet = "Ipv4Address \<times> Ipv4Mask"

definition in_subnet :: "Ipv4Address \<Rightarrow> Subnet \<Rightarrow> bool" where
  "in_subnet a sn \<longleftrightarrow> a AND snd sn = fst sn"

definition subnet_addrs :: "Subnet \<Rightarrow> Ipv4Address set" where
  "subnet_addrs sn = {a. in_subnet a sn}"

definition overlap :: "Subnet \<Rightarrow> Subnet \<Rightarrow> bool" where
  "overlap s t \<longleftrightarrow> subnet_addrs s \<inter> subnet_addrs t \<noteq> {}"

subsection \<open>How a run ends\<close>

text \<open>
  \<open>Exited c\<close>: the process leaves through \<open>exit (c)\<close> or the end of \<open>main\<close>.
  \<open>Aborted\<close>: the simulation library stops the process on a fatal error.
  \<open>Undefined\<close>: the C++ program has no defined behaviour from this point (an array
  read out of range, a distribution built with bounds out of order).
\<close>

datatype status = Exited nat | Aborted | Undefined

subsection \<open>The address helper\<close>

text \<open>
  Modelled from the spec: the class \<open>Ipv4AddressHelper\<close> of the simulation library
  (the spec's Subnet Allocator, one object per pool), whose source is not part of the
  repository. \<open>SetBase\<close> fixes the pool's first network and its mask; the cursor
  \<open>m_network\<close> is the network that is handed out next; host numbers start at
  \<open>m_base\<close> = 1 (the library's default \<open>0.0.0.1\<close>). \<open>NewAddress\<close> hands out the
  next host address of the current network, \<open>NewNetwork\<close> moves the cursor to the next
  block of the same mask width. Running out of host numbers in a network or of networks
  in the pool is the spec's fatal address-space exhaustion: the process is aborted.
\<close>

record Ipv4AddressHelper =
  m_network :: Ipv4Address
  m_mask :: Ipv4Mask
  m_address :: uint32_t
  m_base :: uint32_t

definition SetBase :: "Ipv4Address \<Rightarrow> Ipv4Mask \<Rightarrow> Ipv4AddressHelper" where
  "SetBase network msk =
     \<lparr>m_network = network, m_mask = msk, m_address = 1, m_base = 1\<rparr>"

text \<open>The largest host number of a network: all host bits set is the broadcast address.\<close>

definition m_max :: "Ipv4AddressHelper \<Rightarrow> uint32_t" where
  "m_max h = NOT (m_mask h) - 1"

definition NewAddress :: "Ipv4AddressHelper \<Rightarrow> status + (Ipv4Address \<times> Ipv4AddressHelper)" where
  "NewAddress h =
     (if m_address h \<le> m_max h \<and> m_mask h \<noteq> - 1
      then Inr (m_network h OR m_address h, h\<lparr>m_address := m_address h + 1\<rparr>)
      else Inl Aborted)"

definition NewNetwork :: "Ipv4AddressHelper \<Rightarrow> status + Ipv4AddressHelper" where
  "NewNetwork h =
     (if uint (m_network h) + uint (NOT (m_mask h)) + 1 < 2 ^ 32
      then Inr (h\<lparr>m_network := m_network h + (NOT (m_mask h) + 1), m_address := m_base h\<rparr>)
      else Inl Aborted)"

text \<open>The subnet that the helper hands addresses out of at the moment.\<close>

definition current_subnet :: "Ipv4AddressHelper \<Rightarrow> Subnet" where
  "current_subnet h = (m_network h, m_mask h)"

text \<open>\<open>Assign\<close> on a device container: one new address per device, in the container's
  order, each stored with the helper's mask. The result is the helper afterwards and the
  new interface addresses \<open>(device, address, mask)\<close>.\<close>

type_synonym Ipv4InterfaceAddress = "nat \<times> Ipv4Address \<times> Ipv4Mask"

fun Assign :: "Ipv4AddressHelper \<Rightarrow> nat list \<Rightarrow>
    status + (Ipv4AddressHelper \<times> Ipv4InterfaceAddress list)" where
  "Assign h [] = Inr (h, [])"
| "Assign h (d # ds) =
     (case NewAddress h of
        Inl e \<Rightarrow> Inl e
      | Inr (a, h') \<Rightarrow>
          (case Assign h' ds of
             Inl e \<Rightarrow> Inl e
           | Inr (h'', es) \<Rightarrow> Inr (h'', (d, a, m_mask h) # es)))"

subsection \<open>The state\<close>

datatype channel_kind = YansWifiChannel | CsmaChannel

text \<open>
  Nodes, channels and devices are numbered in the order of their creation, from 0. A
  device is the pair of its node and its channel. The fields from \<open>rng\<close> on are the
  local variables of \<open>main\<close>; a container is the list of the numbers it holds.
\<close>

record 'g state =
  node_count :: nat
  channels :: "channel_kind list"
  devices :: "(nat \<times> nat) list"
  addresses :: "Ipv4InterfaceAddress list"
  stacks :: "nat list"
  positions :: "(nat \<times> int \<times> int) list"
  cout :: "string list"
  anim_files :: "string list"
  stop_at :: "nat option"
  run_done :: bool
  destroyed :: bool
  rng :: 'g
  ipAddrs :: "Ipv4AddressHelper list"
  wifiPhy :: "nat option"
  clusters :: "nat list list"
  clusterDevices :: "nat list list"
  head_cluster :: "nat list"
  ipAddrsH :: "Ipv4AddressHelper option"
  head_clusterDevices :: "nat list"

definition initial :: "'g \<Rightarrow> 'g state" where
  "initial g =
     \<lparr>node_count = 0, channels = [], devices = [], addresses = [], stacks = [],
      positions = [], cout = [], anim_files = [], stop_at = None, run_done = False,
      destroyed = False, rng = g, ipAddrs = [], wifiPhy = None, clusters = [],
      clusterDevices = [], head_cluster = [], ipAddrsH = None,
      head_clusterDevices = []\<rparr>"

text \<open>The three variables that \<open>main\<close> declares as its simulation parameters.\<close>

record config =
  clusterHeadNodes :: uint32_t
  infraNodes :: "uint32_t list"
  stopTime :: uint32_t

definition shipped :: config where
  "shipped = \<lparr>clusterHeadNodes = 2, infraNodes = [4, 3], stopTime = 20\<rparr>"

subsection \<open>The library calls of the loop body\<close>

text \<open>
  Modelled from the spec: the helpers of the simulation library that create nodes,
  channels and devices, install the network stack and place the nodes; their sources are
  not part of the repository. Each creates exactly what the spec's Cluster Builder and
  Backbone Assembler say: \<open>Create n\<close> makes \<open>n\<close> new nodes, an \<open>Install\<close> of an
  interconnect makes one device per node of the container on the given channel, the
  stack is installed on every node of the container, and the grid allocator places the
  nodes row by row from the origin.
\<close>

definition Channel_Create :: "channel_kind \<Rightarrow> 'g state \<Rightarrow> nat \<times> 'g state" where
  "Channel_Create k s = (length (channels s), s\<lparr>channels := channels s @ [k]\<rparr>)"

definition Create :: "nat \<Rightarrow> 'g state \<Rightarrow> nat list \<times> 'g state" where
  "Create n s =
     ([node_count s ..< node_count s + n], s\<lparr>node_count := node_count s + n\<rparr>)"

definition Install :: "nat \<Rightarrow> nat list \<Rightarrow> 'g state \<Rightarrow> nat list \<times> 'g state" where
  "Install ch c s =
     ([length (devices s) ..< length (devices s) + length c],
      s\<lparr>devices := devices s @ map (\<lambda>v. (v, ch)) c\<rparr>)"

definition internet_Install :: "nat list \<Rightarrow> 'g state \<Rightarrow> 'g state" where
  "internet_Install c s = s\<lparr>stacks := stacks s @ c\<rparr>"

text \<open>The grid position allocator, layout \<open>RowFirst\<close>: the \<open>j\<close>-th node of the
  container stands in column \<open>j mod GridWidth\<close> of row \<open>j div GridWidth\<close>. The
  coordinates of the source are doubles; every value that occurs is an integer far below
  \<open>2 ^ 53\<close>, which doubles represent and add exactly, so they are integers here.\<close>

definition GridPosition :: "int \<Rightarrow> int \<Rightarrow> int \<Rightarrow> int \<Rightarrow> nat \<Rightarrow> nat \<Rightarrow> int \<times> int" where
  "GridPosition MinX MinY DeltaX DeltaY GridWidth j =
     (MinX + DeltaX * int (j mod GridWidth), MinY + DeltaY * int (j div GridWidth))"

definition mobility_Install ::
    "(nat \<Rightarrow> int \<times> int) \<Rightarrow> nat list \<Rightarrow> 'g state \<Rightarrow> 'g state" where
  "mobility_Install alloc c s =
     s\<lparr>positions := positions s @ map (\<lambda>j. (c ! j, alloc j)) [0 ..< length c]\<rparr>"

subsection \<open>The loop body\<close>

text \<open>
  \<open>std::uniform_int_distribution<int>\<close> and the generator \<open>std::mt19937\<close> belong to
  the C++ standard library. The distribution is the parameter \<open>uni\<close>: \<open>uni a b g\<close> is
  the number drawn for the bounds \<open>a\<close>, \<open>b\<close> from the generator in state \<open>g\<close>, with
  the generator's next state. The standard promises a number in \<open>[a, b]\<close> when
  \<open>a \<le> b\<close>, and nothing otherwise.
\<close>

type_synonym 'g distribution = "int \<Rightarrow> int \<Rightarrow> 'g \<Rightarrow> int \<times> 'g"

definition in_bounds :: "'g distribution \<Rightarrow> bool" where
  "in_bounds uni \<longleftrightarrow> (\<forall>a b g. a \<le> b \<longrightarrow> a \<le> fst (uni a b g) \<and> fst (uni a b g) \<le> b)"

text \<open>Lines 161 to 195: the channel, the nodes, the devices, the stack, the addresses and
  the placement of cluster \<open>i\<close>.\<close>

definition build_cluster :: "config \<Rightarrow> nat \<Rightarrow> 'g state \<Rightarrow> (status \<times> 'g state) + 'g state" where
  "build_cluster cfg i s0 =
     (let (ch, s1) = Channel_Create YansWifiChannel s0;
          s2 = s1\<lparr>wifiPhy := Some ch\<rparr>
      in if \<not> i < length (infraNodes cfg) then Inl (Undefined, s2)
      else
        let (c, s3) = Create (unat (infraNodes cfg ! i)) s2;
            s4 = s3\<lparr>clusters := clusters s3 @ [c]\<rparr>
        in case wifiPhy s4 of
             None \<Rightarrow> Inl (Undefined, s4)
           | Some phy \<Rightarrow>
               let (ds, s5) = Install phy c s4;
                   s6 = s5\<lparr>clusterDevices := clusterDevices s5 @ [ds]\<rparr>;
                   s7 = internet_Install c s6
               in if \<not> i < length (ipAddrs s7) then Inl (Undefined, s7)
               else
                 case Assign (ipAddrs s7 ! i) ds of
                   Inl e \<Rightarrow> Inl (e, s7)
                 | Inr (h, es) \<Rightarrow>
                     (case NewNetwork h of
                        Inl e \<Rightarrow> Inl (e, s7\<lparr>addresses := addresses s7 @ es\<rparr>)
                      | Inr h' \<Rightarrow>
                          Inr (mobility_Install
                                 (GridPosition ((int i + 1) * 50) ((int i + 1) * 20) 5 10 2) c
                                 (s7\<lparr>addresses := addresses s7 @ es,
                                     ipAddrs := list_update (ipAddrs s7) i h'\<rparr>))))"

text \<open>Lines 214 to 216: the draw and the representative of cluster \<open>i\<close>. The upper
  bound \<open>infraNodes[i]-1\<close> is computed in \<open>uint32_t\<close> and converted to \<open>int\<close>;
  \<open>Get\<close> reads the container's vector at the number drawn.\<close>

definition select_head ::
    "config \<Rightarrow> 'g distribution \<Rightarrow> nat \<Rightarrow> 'g state \<Rightarrow> (status \<times> 'g state) + 'g state" where
  "select_head cfg uni i s =
     (if \<not> i < length (infraNodes cfg) \<or> \<not> i < length (clusters s) then Inl (Undefined, s)
      else
        let b = sint (infraNodes cfg ! i - 1)
        in if b < 0 then Inl (Undefined, s)
        else
          let (random_integer, g) = uni 0 b (rng s);
              s1 = s\<lparr>rng := g\<rparr>
          in if random_integer < 0 \<or> \<not> nat random_integer < length (clusters s1 ! i)
             then Inl (Undefined, s1)
             else Inr (s1\<lparr>head_cluster :=
                            head_cluster s1 @ [clusters s1 ! i ! nat random_integer]\<rparr>))"

definition loop_body ::
    "config \<Rightarrow> 'g distribution \<Rightarrow> nat \<Rightarrow> 'g state \<Rightarrow> (status \<times> 'g state) + 'g state" where
  "loop_body cfg uni i s =
     (case build_cluster cfg i s of
        Inl e \<Rightarrow> Inl e
      | Inr s1 \<Rightarrow> select_head cfg uni i s1)"

text \<open>The \<open>for\<close> loop over the values of \<open>i\<close>, stopping where an iteration stops the
  program.\<close>

primrec for_loop ::
    "nat list \<Rightarrow> (nat \<Rightarrow> 's \<Rightarrow> ('e \<times> 's) + 's) \<Rightarrow> 's \<Rightarrow> ('e \<times> 's) + 's" where
  "for_loop [] body s = Inr s"
| "for_loop (i # js) body s =
     (case body i s of
        Inl e \<Rightarrow> Inl e
      | Inr s1 \<Rightarrow> for_loop js body s1)"

subsection \<open>The backbone and the run\<close>

text \<open>Lines 219 to 238: the address pool of the backbone, the shared wired channel over
  the representatives, their new addresses.\<close>

definition backbone :: "'g state \<Rightarrow> (status \<times> 'g state) + 'g state" where
  "backbone s0 =
     (let h0 = SetBase (ipv4 172 16 0 0) (ipv4 255 255 255 0);
          s1 = s0\<lparr>ipAddrsH := Some h0\<rparr>;
          (ch, s2) = Channel_Create CsmaChannel s1;
          (ds, s3) = Install ch (head_cluster s2) s2;
          s4 = s3\<lparr>head_clusterDevices := ds\<rparr>
      in case Assign h0 ds of
           Inl e \<Rightarrow> Inl (e, s4)
         | Inr (h, es) \<Rightarrow>
             (case NewNetwork h of
                Inl e \<Rightarrow> Inl (e, s4\<lparr>addresses := addresses s4 @ es\<rparr>)
              | Inr h' \<Rightarrow> Inr (s4\<lparr>addresses := addresses s4 @ es, ipAddrsH := Some h'\<rparr>)))"

text \<open>Lines 312 to 323: the animation trace, the stop event, the run of the engine and its
  teardown.\<close>

definition simulate :: "config \<Rightarrow> 'g state \<Rightarrow> 'g state" where
  "simulate cfg s =
     s\<lparr>anim_files := anim_files s @ [''taller.xml''],
       stop_at := Some (unat (stopTime cfg)),
       run_done := True,
       destroyed := True\<rparr>"

text \<open>The body of \<open>main\<close> from line 110 on, for given values of the three parameters.\<close>

definition main_body :: "config \<Rightarrow> 'g distribution \<Rightarrow> 'g \<Rightarrow> status \<times> 'g state" where
  "main_body cfg uni g =
     (let s = initial g
      in if stopTime cfg < 10
         then (Exited 1, s\<lparr>cout := cout s @ [''Use a simulation stop time >= 10 seconds'']\<rparr>)
         else
           let s1 = s\<lparr>ipAddrs := [SetBase (ipv4 192 167 0 0) (ipv4 255 255 255 0),
                                  SetBase (ipv4 192 168 0 0) (ipv4 255 255 255 0),
                                  SetBase (ipv4 192 169 0 0) (ipv4 255 255 255 0)]\<rparr>
           in case for_loop [0 ..< nat (sint (clusterHeadNodes cfg))] (loop_body cfg uni) s1 of
                Inl (e, s2) \<Rightarrow> (e, s2)
              | Inr s2 \<Rightarrow>
                  (case backbone s2 of
                     Inl (e, s3) \<Rightarrow> (e, s3)
                   | Inr s3 \<Rightarrow> (Exited 0, simulate cfg s3)))"

text \<open>
  The program. \<open>rd\<close> is the number that \<open>std::random_device\<close> returns, \<open>mt19937\<close> the
  seeding of the generator with it. \<open>Parse\<close> is the command-line helper of the
  simulation library, for which \<open>main\<close> registers no value: it either returns
  (\<open>None\<close>) or ends the process itself, after writing some lines to the standard
  output, with an exit code (\<open>Some (lines, code)\<close>), as it does for a request for help.
  The parameters have the values written in the source.
\<close>

definition main ::
    "(string list \<Rightarrow> (string list \<times> nat) option) \<Rightarrow> string list \<Rightarrow> 'g distribution \<Rightarrow>
     (uint32_t \<Rightarrow> 'g) \<Rightarrow> uint32_t \<Rightarrow> status \<times> 'g state" where
  "main Parse argv uni mt19937 rd =
     (let g = mt19937 rd
      in case Parse argv of
           Some (out, c) \<Rightarrow> (Exited c, (initial g)\<lparr>cout := out\<rparr>)
         | None \<Rightarrow> main_body shipped uni g)"

text \<open>
  One command-line helper, for instances: as the library's does, it ends the process with
  exit code 0 when the arguments hold \<open>--PrintHelp\<close>, after writing its usage text (one
  line stands for the text here), and returns on every other argument list.
\<close>

definition help_request :: "string list \<Rightarrow> (string list \<times> nat) option" where
  "help_request argv =
     (if ''--PrintHelp'' \<in> set argv then Some ([''usage''], 0) else None)"

subsection \<open>The shape of the state during a run\<close>

text \<open>
  The quantities in which the claims speak about a run. \<open>pool_base i\<close> is the network
  that line 141, 142 or 143 gives to the address helper \<open>ipAddrs[i]\<close>;
  \<open>first_node cfg i\<close> is the number of nodes created before cluster \<open>i\<close>;
  \<open>gen cfg uni g i\<close> is the state of the one generator before the draw for cluster
  \<open>i\<close>, when it started in state \<open>g\<close> and every earlier cluster drew once from it;
  \<open>draw cfg uni g i\<close> is the number drawn for cluster \<open>i\<close>.
\<close>

definition pool_base :: "nat \<Rightarrow> Ipv4Address" where
  "pool_base i = ipv4 192 (167 + of_nat i) 0 0"

definition first_node :: "config \<Rightarrow> nat \<Rightarrow> nat" where
  "first_node cfg i = sum_list (map unat (take i (infraNodes cfg)))"

primrec gen :: "config \<Rightarrow> 'g distribution \<Rightarrow> 'g \<Rightarrow> nat \<Rightarrow> 'g" where
  "gen cfg uni g 0 = g"
| "gen cfg uni g (Suc i) = snd (uni 0 (sint (infraNodes cfg ! i - 1)) (gen cfg uni g i))"

definition draw :: "config \<Rightarrow> 'g distribution \<Rightarrow> 'g \<Rightarrow> nat \<Rightarrow> int" where
  "draw cfg uni g i = fst (uni 0 (sint (infraNodes cfg ! i - 1)) (gen cfg uni g i))"

text \<open>The state after \<open>i\<close> iterations of the loop, field by field.\<close>

definition inv_nodes :: "config \<Rightarrow> nat \<Rightarrow> 'g state \<Rightarrow> bool" where
  "inv_nodes cfg i s \<longleftrightarrow>
     i \<le> length (infraNodes cfg) \<and>
     node_count s = first_node cfg i \<and>
     length (devices s) = first_node cfg i \<and>
     stacks s = [0 ..< first_node cfg i] \<and>
     channels s = replicate i YansWifiChannel \<and>
     clusters s = map (\<lambda>j. [first_node cfg j ..< first_node cfg (Suc j)]) [0 ..< i] \<and>
     clusterDevices s = clusters s \<and>
     (\<forall>j k. j < i \<and> k < unat (infraNodes cfg ! j) \<longrightarrow>
        devices s ! (first_node cfg j + k) = (first_node cfg j + k, j))"

definition inv_addr :: "config \<Rightarrow> nat \<Rightarrow> 'g state \<Rightarrow> bool" where
  "inv_addr cfg i s \<longleftrightarrow>
     i \<le> 3 \<and>
     length (addresses s) = first_node cfg i \<and>
     length (ipAddrs s) = 3 \<and>
     (\<forall>j. i \<le> j \<and> j < 3 \<longrightarrow>
        ipAddrs s ! j = SetBase (pool_base j) (ipv4 255 255 255 0)) \<and>
     (\<forall>j k. j < i \<and> k < unat (infraNodes cfg ! j) \<longrightarrow>
        k < 254 \<and>
        addresses s ! (first_node cfg j + k) =
          (first_node cfg j + k, pool_base j OR (1 + of_nat k), ipv4 255 255 255 0))"

definition inv_pos :: "config \<Rightarrow> nat \<Rightarrow> 'g state \<Rightarrow> bool" where
  "inv_pos cfg i s \<longleftrightarrow>
     length (positions s) = first_node cfg i \<and>
     (\<forall>j k. j < i \<and> k < unat (infraNodes cfg ! j) \<longrightarrow>
        positions s ! (first_node cfg j + k) =
          (first_node cfg j + k,
           GridPosition ((int j + 1) * 50) ((int j + 1) * 20) 5 10 2 k))"

definition inv_head :: "config \<Rightarrow> 'g distribution \<Rightarrow> 'g \<Rightarrow> nat \<Rightarrow> 'g state \<Rightarrow> bool" where
  "inv_head cfg uni g i s \<longleftrightarrow>
     length (head_cluster s) = i \<and>
     rng s = gen cfg uni g i \<and>
     (\<forall>j. j < i \<longrightarrow>
        0 \<le> sint (infraNodes cfg ! j - 1) \<and>
        0 \<le> draw cfg uni g j \<and>
        nat (draw cfg uni g j) < unat (infraNodes cfg ! j) \<and>
        head_cluster s ! j = first_node cfg j + nat (draw cfg uni g j))"

definition inv_idle :: "'g state \<Rightarrow> bool" where
  "inv_idle s \<longleftrightarrow>
     cout s = [] \<and> anim_files s = [] \<and> stop_at s = None \<and> \<not> run_done s \<and>
     \<not> destroyed s \<and> ipAddrsH s = None \<and> head_clusterDevices s = []"

definition assembled :: "config \<Rightarrow> 'g distribution \<Rightarrow> 'g \<Rightarrow> nat \<Rightarrow> 'g state \<Rightarrow> bool" where
  "assembled cfg uni g i s \<longleftrightarrow>
     inv_nodes cfg i s \<and> inv_addr cfg i s \<and> inv_pos cfg i s \<and> inv_head cfg uni g i s \<and>
     inv_idle s"

text \<open>
  The configurations on which the assembly runs to its end: a stop time of at least 10, at
  most three clusters (\<open>main\<close> declares three address helpers), a size for every
  cluster, and every size between 1 and 254, the host numbers of a /24 network.
\<close>

definition valid_config :: "config \<Rightarrow> bool" where
  "valid_config cfg \<longleftrightarrow>
     10 \<le> stopTime cfg \<and>
     nat (sint (clusterHeadNodes cfg)) \<le> 3 \<and>
     nat (sint (clusterHeadNodes cfg)) \<le> length (infraNodes cfg) \<and>
     list_all (\<lambda>n. 1 \<le> n \<and> n \<le> 254)
       (take (nat (sint (clusterHeadNodes cfg))) (infraNodes cfg))"

text \<open>The number of iterations of the loop, \<open>int(clusterHeadNodes)\<close> when it is
  positive, and the state in which the loop is entered: nothing created, the three address
  helpers of lines 141 to 143 set.\<close>

definition cluster_count :: "config \<Rightarrow> nat" where
  "cluster_count cfg = nat (sint (clusterHeadNodes cfg))"

definition at_loop_entry :: "'g \<Rightarrow> 'g state" where
  "at_loop_entry g =
     (initial g)\<lparr>ipAddrs := [SetBase (ipv4 192 167 0 0) (ipv4 255 255 255 0),
                                SetBase (ipv4 192 168 0 0) (ipv4 255 255 255 0),
                                SetBase (ipv4 192 169 0 0) (ipv4 255 255 255 0)]\<rparr>"

subsection \<open>What the claims observe in a state\<close>

text \<open>
  The interfaces of a node are its devices; its addresses are the interface addresses of
  its devices; the subnet of an interface address is the network that its mask cuts out
  of it.
\<close>

definition interfaces :: "'g state \<Rightarrow> nat \<Rightarrow> nat list" where
  "interfaces s v = filter (\<lambda>d. fst (devices s ! d) = v) [0 ..< length (devices s)]"

definition node_addresses :: "'g state \<Rightarrow> nat \<Rightarrow> Ipv4InterfaceAddress list" where
  "node_addresses s v = filter (\<lambda>e. fst (devices s ! fst e) = v) (addresses s)"

definition subnet_of :: "Ipv4InterfaceAddress \<Rightarrow> Subnet" where
  "subnet_of e = (fst (snd e) AND snd (snd e), snd (snd e))"

text \<open>The subnets in which the devices of a container have their addresses.\<close>

definition container_subnets :: "'g state \<Rightarrow> nat list \<Rightarrow> Subnet set" where
  "container_subnets s ds = set (map subnet_of (filter (\<lambda>e. fst e \<in> set ds) (addresses s)))"

text \<open>The blocks that one pool issues when it is used \<open>n\<close> times the way \<open>main\<close> uses
  a helper: addresses are assigned out of the current network, then \<open>NewNetwork\<close>
  moves on.\<close>

fun issue :: "nat \<Rightarrow> Ipv4AddressHelper \<Rightarrow> status + Subnet list" where
  "issue 0 h = Inr []"
| "issue (Suc n) h =
     (case NewNetwork h of
        Inl e \<Rightarrow> Inl e
      | Inr h' \<Rightarrow>
          (case issue n h' of
             Inl e \<Rightarrow> Inl e
           | Inr bs \<Rightarrow> Inr (current_subnet h # bs)))"

subsection \<open>A distribution and a generator for instances\<close>

text \<open>A linear congruential generator and a draw by remainder: one distribution that
  keeps the standard's promise, for evaluating the model on concrete runs.\<close>

definition lcg_uni :: "nat distribution" where
  "lcg_uni a b g = (a + int g mod (b - a + 1), (g * 1103515245 + 12345) mod 2 ^ 31)"

section \<open>Auxiliary facts\<close>

subsection \<open>The /24 mask\<close>

lemma mask24: "ipv4 255 255 255 0 = 0xFFFFFF00"
  by (simp add: ipv4_def)

lemma not_mask24: "NOT (0xFFFFFF00 :: 32 word) = 255"
  by (simp add: word_uint_eq_iff uint_word_ariths)

lemma mask24_complement: "(0xFFFFFF00 :: 32 word) = NOT (mask 8)"
  by (simp add: mask_eq_exp_minus_1)

lemma host_and_mask24:
  assumes "(x :: 32 word) \<le> 255"
  shows "x AND 0xFFFFFF00 = 0"
proof -
  have "x < 2 ^ 8"
    using assms by (simp add: word_le_nat_alt word_less_nat_alt)
  then have x: "x AND mask 8 = x"
    by (rule less_mask_eq)
  have "(x AND mask 8) AND NOT (mask 8) = 0"
    by (simp add: bit_eq_iff bit_simps)
  then show ?thesis
    by (simp add: x mask24_complement)
qed

lemma network_or_host:
  assumes "(n :: 32 word) AND 0xFFFFFF00 = n" and "x \<le> 255"
  shows "(n OR x) AND 0xFFFFFF00 = n"
proof -
  have "(n OR x) AND 0xFFFFFF00 = (n AND 0xFFFFFF00) OR (x AND 0xFFFFFF00)"
    by (simp add: bit.conj_disj_distrib2)
  then show ?thesis
    using assms by (simp add: host_and_mask24)
qed

subsection \<open>The loop\<close>

lemma for_loop_append:
  "for_loop (xs @ ys) body s =
     (case for_loop xs body s of Inl e \<Rightarrow> Inl e | Inr s1 \<Rightarrow> for_loop ys body s1)"
  by (induction xs arbitrary: s) (auto split: sum.splits)

lemma for_loop_snoc:
  "for_loop [0 ..< Suc k] body s =
     (case for_loop [0 ..< k] body s of Inl e \<Rightarrow> Inl e | Inr s1 \<Rightarrow> body k s1)"
  by (simp add: for_loop_append split: sum.splits)

lemma for_loop_upt_Inr:
  assumes "for_loop [0 ..< k] body s = Inr s'" and "P 0 s"
    and "\<And>i t t'. i < k \<Longrightarrow> P i t \<Longrightarrow> body i t = Inr t' \<Longrightarrow> P (Suc i) t'"
  shows "P k s'"
  using assms
proof (induction k arbitrary: s')
  case 0
  then show ?case by simp
next
  case (Suc k)
  from Suc.prems(1) obtain t where t: "for_loop [0 ..< k] body s = Inr t" and b: "body k t = Inr s'"
    unfolding for_loop_snoc by (cases "for_loop [0 ..< k] body s") simp_all
  have step: "\<And>i t t'. i < k \<Longrightarrow> P i t \<Longrightarrow> body i t = Inr t' \<Longrightarrow> P (Suc i) t'"
    using Suc.prems(3) less_Suc_eq by blast
  have "P k t" using Suc.IH[OF t Suc.prems(2) step] .
  then show ?case using Suc.prems(3)[of k t s'] b by blast
qed

lemma for_loop_upt_Inl:
  assumes "for_loop [0 ..< k] body s = Inl x"
  shows "\<exists>i t. i < k \<and> for_loop [0 ..< i] body s = Inr t \<and> body i t = Inl x"
  using assms
proof (induction k)
  case 0
  then show ?case by simp
next
  case (Suc k)
  show ?case
  proof (cases "for_loop [0 ..< k] body s")
    case (Inl y)
    with Suc.prems have "y = x" unfolding for_loop_snoc by simp
    with Suc.IH Inl obtain i t where "i < k" "for_loop [0 ..< i] body s = Inr t" "body i t = Inl x"
      by blast
    then show ?thesis using less_Suc_eq by blast
  next
    case (Inr t)
    with Suc.prems have "body k t = Inl x" unfolding for_loop_snoc by simp
    with Inr show ?thesis by blast
  qed
qed

lemma for_loop_upt_total:
  assumes init: "P 0 s"
    and step: "\<And>i t t'. i < k \<Longrightarrow> P i t \<Longrightarrow> body i t = Inr t' \<Longrightarrow> P (Suc i) t'"
    and total: "\<And>i t. i < k \<Longrightarrow> P i t \<Longrightarrow> \<exists>t'. body i t = Inr t'"
  shows "\<exists>s'. for_loop [0 ..< k] body s = Inr s'"
proof (cases "for_loop [0 ..< k] body s")
  case (Inl x)
  from for_loop_upt_Inl[OF Inl]
  obtain i t where i: "i < k" and t: "for_loop [0 ..< i] body s = Inr t"
    and b: "body i t = Inl x"
    by auto
  have step': "\<And>j u u'. j < i \<Longrightarrow> P j u \<Longrightarrow> body j u = Inr u' \<Longrightarrow> P (Suc j) u'"
  proof -
    fix j u u' assume "j < i" "P j u" "body j u = Inr u'"
    moreover from \<open>j < i\<close> i have "j < k" by simp
    ultimately show "P (Suc j) u'" using step by blast
  qed
  have "P i t"
    by (rule for_loop_upt_Inr[where P = P and body = body, OF t init step'])
  from total[OF i this] b show ?thesis by simp
next
  case (Inr t)
  then show ?thesis by blast
qed

subsection \<open>The successful paths of the loop body\<close>

lemma build_cluster_Inr:
  assumes "build_cluster cfg i s = Inr s'"
  shows "\<exists>h es h'. i < length (infraNodes cfg) \<and> i < length (ipAddrs s) \<and>
           Assign (ipAddrs s ! i)
             [length (devices s) ..< length (devices s) + unat (infraNodes cfg ! i)] = Inr (h, es) \<and>
           NewNetwork h = Inr h' \<and>
           s' = s\<lparr>node_count := node_count s + unat (infraNodes cfg ! i),
                  channels := channels s @ [YansWifiChannel],
                  devices := devices s @ map (\<lambda>v. (v, length (channels s)))
                     [node_count s ..< node_count s + unat (infraNodes cfg ! i)],
                  addresses := addresses s @ es,
                  stacks := stacks s @ [node_count s ..< node_count s + unat (infraNodes cfg ! i)],
                  positions := positions s @
                     map (\<lambda>j. (node_count s + j,
                               GridPosition ((int i + 1) * 50) ((int i + 1) * 20) 5 10 2 j))
                       [0 ..< unat (infraNodes cfg ! i)],
                  ipAddrs := list_update (ipAddrs s) i h',
                  wifiPhy := Some (length (channels s)),
                  clusters := clusters s @
                     [[node_count s ..< node_count s + unat (infraNodes cfg ! i)]],
                  clusterDevices := clusterDevices s @
                     [[length (devices s) ..< length (devices s) + unat (infraNodes cfg ! i)]]\<rparr>"
  using assms
  by (auto simp: build_cluster_def Channel_Create_def Create_def Install_def
        internet_Install_def mobility_Install_def Let_def
      split: if_splits sum.splits prod.splits)

lemma select_head_Inr:
  assumes "select_head cfg uni i s = Inr s'"
  shows "i < length (infraNodes cfg) \<and> i < length (clusters s) \<and>
         0 \<le> sint (infraNodes cfg ! i - 1) \<and>
         0 \<le> fst (uni 0 (sint (infraNodes cfg ! i - 1)) (rng s)) \<and>
         nat (fst (uni 0 (sint (infraNodes cfg ! i - 1)) (rng s))) < length (clusters s ! i) \<and>
         s' = s\<lparr>rng := snd (uni 0 (sint (infraNodes cfg ! i - 1)) (rng s)),
                head_cluster := head_cluster s @
                  [clusters s ! i ! nat (fst (uni 0 (sint (infraNodes cfg ! i - 1)) (rng s)))]\<rparr>"
  using assms
  by (auto simp: select_head_def Let_def split: if_splits prod.splits)

subsection \<open>Failing paths of the address helper\<close>

lemma NewAddress_Inl: "NewAddress h = Inl e \<Longrightarrow> e = Aborted"
  by (simp add: NewAddress_def split: if_splits)

lemma NewNetwork_Inl: "NewNetwork h = Inl e \<Longrightarrow> e = Aborted"
  by (simp add: NewNetwork_def split: if_splits)

lemma Assign_Inl: "Assign h ds = Inl e \<Longrightarrow> e = Aborted"
proof (induction ds arbitrary: h)
  case Nil
  then show ?case by simp
next
  case (Cons d ds)
  show ?case
  proof (cases "NewAddress h")
    case (Inl e')
    with Cons.prems show ?thesis by (simp add: NewAddress_Inl)
  next
    case (Inr p)
    obtain a h1 where p: "p = (a, h1)" by (cases p)
    show ?thesis
    proof (cases "Assign h1 ds")
      case (Inl e')
      with Cons.prems Inr p have "e' = e" by simp
      with Inl have "Assign h1 ds = Inl e" by simp
      then show ?thesis by (rule Cons.IH)
    next
      case (Inr q)
      with Cons.prems \<open>NewAddress h = Inr p\<close> p show ?thesis
        by (simp split: prod.splits)
    qed
  qed
qed

lemma build_cluster_Inl:
  assumes "build_cluster cfg i s = Inl (e, t)"
  shows "(e = Aborted \<or> e = Undefined) \<and> cout t = cout s \<and>
         channels t = channels s @ [YansWifiChannel]"
  using assms
  by (auto simp: build_cluster_def Channel_Create_def Create_def Install_def
        internet_Install_def Let_def
      split: if_splits sum.splits prod.splits dest: Assign_Inl NewNetwork_Inl)

lemma select_head_Inl:
  assumes "select_head cfg uni i s = Inl (e, t)"
  shows "e = Undefined \<and> cout t = cout s \<and> channels t = channels s"
  using assms
  by (auto simp: select_head_def Let_def split: if_splits prod.splits)

lemma build_cluster_quiet:
  assumes "build_cluster cfg i s = Inr t"
  shows "cout t = cout s \<and> channels t = channels s @ [YansWifiChannel]"
  using build_cluster_Inr[OF assms] by auto

lemma select_head_quiet:
  assumes "select_head cfg uni i s = Inr t"
  shows "cout t = cout s \<and> channels t = channels s"
proof -
  from select_head_Inr[OF assms] obtain r g where "t = s\<lparr>rng := g, head_cluster := r\<rparr>"
    by blast
  then show ?thesis by simp
qed


subsection \<open>The other paths\<close>

lemma loop_body_Inl:
  assumes "loop_body cfg uni i s = Inl (e, t)"
  shows "(e = Aborted \<or> e = Undefined) \<and> cout t = cout s \<and>
         channels t = channels s @ [YansWifiChannel]"
proof (cases "build_cluster cfg i s")
  case (Inl x)
  with assms have "build_cluster cfg i s = Inl (e, t)"
    by (simp add: loop_body_def)
  then show ?thesis by (rule build_cluster_Inl)
next
  case (Inr s1)
  with assms have "select_head cfg uni i s1 = Inl (e, t)"
    by (simp add: loop_body_def)
  from select_head_Inl[OF this] build_cluster_quiet[OF Inr] show ?thesis by simp
qed

lemma loop_body_quiet:
  assumes "loop_body cfg uni i s = Inr t"
  shows "cout t = cout s \<and> channels t = channels s @ [YansWifiChannel]"
proof (cases "build_cluster cfg i s")
  case (Inl x)
  with assms show ?thesis by (simp add: loop_body_def)
next
  case (Inr s1)
  with assms have "select_head cfg uni i s1 = Inr t"
    by (simp add: loop_body_def)
  from select_head_quiet[OF this] build_cluster_quiet[OF Inr] show ?thesis by simp
qed

lemma backbone_Inl:
  assumes "backbone s = Inl (e, t)"
  shows "e = Aborted \<and> cout t = cout s \<and> channels t = channels s @ [CsmaChannel]"
  using assms
  by (auto simp: backbone_def Channel_Create_def Install_def Let_def
      split: if_splits sum.splits prod.splits dest: Assign_Inl NewNetwork_Inl)

lemma backbone_Inr:
  assumes "backbone s = Inr t"
  shows "\<exists>h es h'.
           Assign (SetBase (ipv4 172 16 0 0) (ipv4 255 255 255 0))
             [length (devices s) ..< length (devices s) + length (head_cluster s)] = Inr (h, es) \<and>
           NewNetwork h = Inr h' \<and>
           t = s\<lparr>channels := channels s @ [CsmaChannel],
                 devices := devices s @ map (\<lambda>v. (v, length (channels s))) (head_cluster s),
                 addresses := addresses s @ es,
                 ipAddrsH := Some h',
                 head_clusterDevices :=
                   [length (devices s) ..< length (devices s) + length (head_cluster s)]\<rparr>"
  using assms
  by (auto simp: backbone_def Channel_Create_def Install_def Let_def
      split: if_splits sum.splits prod.splits)

lemma loop_quiet:
  assumes "for_loop [0 ..< k] (loop_body cfg uni) s = Inr t"
  shows "cout t = cout s"
proof -
  have "(\<lambda>i u. cout u = cout s) k t"
    by (rule for_loop_upt_Inr[where P = "\<lambda>i u. cout u = cout s"
          and body = "loop_body cfg uni", OF assms]) (simp_all add: loop_body_quiet)
  then show ?thesis .
qed

lemma past_check:
  assumes "\<not> stopTime cfg < 10"
  shows "cout (snd (main_body cfg uni g)) = [] \<and>
         channels (snd (main_body cfg uni g)) \<noteq> [] \<and>
         (\<forall>c. fst (main_body cfg uni g) = Exited c \<longrightarrow> c = 0)"
proof -
  define s1 where "s1 = (initial g)\<lparr>ipAddrs :=
      [SetBase (ipv4 192 167 0 0) (ipv4 255 255 255 0),
       SetBase (ipv4 192 168 0 0) (ipv4 255 255 255 0),
       SetBase (ipv4 192 169 0 0) (ipv4 255 255 255 0)]\<rparr>"
  define k where "k = nat (sint (clusterHeadNodes cfg))"
  have c1: "cout s1 = []" by (simp add: s1_def initial_def)
  have mb: "main_body cfg uni g =
      (case for_loop [0 ..< k] (loop_body cfg uni) s1 of
         Inl (e, s2) \<Rightarrow> (e, s2)
       | Inr s2 \<Rightarrow>
           (case backbone s2 of
              Inl (e, s3) \<Rightarrow> (e, s3)
            | Inr s3 \<Rightarrow> (Exited 0, simulate cfg s3)))"
    using assms by (simp add: main_body_def s1_def k_def Let_def)
  show ?thesis
  proof (cases "for_loop [0 ..< k] (loop_body cfg uni) s1")
    case (Inl x)
    obtain e t where x: "x = (e, t)" by (cases x)
    from for_loop_upt_Inl[OF Inl] obtain i t0 where
      t0: "for_loop [0 ..< i] (loop_body cfg uni) s1 = Inr t0"
      and b: "loop_body cfg uni i t0 = Inl x"
      by auto
    from loop_quiet[OF t0] c1 have "cout t0 = []" by simp
    with loop_body_Inl[OF b[unfolded x]] show ?thesis
      by (auto simp: mb Inl x)
  next
    case (Inr s2)
    from loop_quiet[OF Inr] c1 have c2: "cout s2 = []" by simp
    show ?thesis
    proof (cases "backbone s2")
      case (Inl x)
      obtain e t where x: "x = (e, t)" by (cases x)
      from backbone_Inl[OF Inl[unfolded x]] c2 show ?thesis
        by (auto simp: mb Inr Inl x)
    next
      case (Inr s3)
      from backbone_Inr[OF Inr] obtain es h' where
        "s3 = s2\<lparr>channels := channels s2 @ [CsmaChannel],
                 devices := devices s2 @ map (\<lambda>v. (v, length (channels s2))) (head_cluster s2),
                 addresses := addresses s2 @ es,
                 ipAddrsH := Some h',
                 head_clusterDevices :=
                   [length (devices s2) ..< length (devices s2) + length (head_cluster s2)]\<rparr>"
        by blast
      then have "cout s3 = []" "channels s3 \<noteq> []" using c2 by simp_all
      then show ?thesis
        by (simp add: mb \<open>for_loop [0 ..< k] (loop_body cfg uni) s1 = Inr s2\<close> Inr simulate_def)
    qed
  qed
qed

subsection \<open>The numbering of the nodes\<close>

lemma first_node_0: "first_node cfg 0 = 0"
  by (simp add: first_node_def)

lemma first_node_Suc:
  "i < length (infraNodes cfg) \<Longrightarrow>
     first_node cfg (Suc i) = first_node cfg i + unat (infraNodes cfg ! i)"
  by (simp add: first_node_def take_Suc_conv_app_nth)

lemma first_node_mono:
  "i \<le> j \<Longrightarrow> j \<le> length (infraNodes cfg) \<Longrightarrow> first_node cfg i \<le> first_node cfg j"
proof (induction j)
  case 0
  then show ?case by simp
next
  case (Suc j)
  show ?case
  proof (cases "i = Suc j")
    case True
    then show ?thesis by simp
  next
    case False
    with Suc.prems have "i \<le> j" "j < length (infraNodes cfg)" by simp_all
    with Suc.IH first_node_Suc[of j cfg] show ?thesis by simp
  qed
qed

lemma node_cluster_unique:
  assumes "first_node cfg j + k = first_node cfg j' + k'"
    and "k < unat (infraNodes cfg ! j)" "k' < unat (infraNodes cfg ! j')"
    and "j < length (infraNodes cfg)" "j' < length (infraNodes cfg)"
  shows "j = j' \<and> k = k'"
proof -
  have ne: False if lt: "a < b" and b: "b < length (infraNodes cfg)"
    and eq: "first_node cfg a + x = first_node cfg b + y"
    and x: "x < unat (infraNodes cfg ! a)" for a b x y
  proof -
    from lt b have "first_node cfg (Suc a) \<le> first_node cfg b"
      by (intro first_node_mono) simp_all
    moreover from lt b have "first_node cfg (Suc a) = first_node cfg a + unat (infraNodes cfg ! a)"
      by (intro first_node_Suc) simp
    ultimately show False using eq x by simp
  qed
  have "j = j'"
  proof (rule ccontr)
    assume "j \<noteq> j'"
    then consider "j < j'" | "j' < j" by linarith
    then show False
    proof cases
      case 1
      from ne[OF 1 assms(5) assms(1) assms(2)] show False .
    next
      case 2
      from ne[OF 2 assms(4) assms(1)[symmetric] assms(3)] show False .
    qed
  qed
  with assms(1) show ?thesis by simp
qed

lemma node_cluster_exists:
  assumes "v < first_node cfg i" "i \<le> length (infraNodes cfg)"
  shows "\<exists>j k. j < i \<and> k < unat (infraNodes cfg ! j) \<and> v = first_node cfg j + k"
  using assms
proof (induction i)
  case 0
  then show ?case by (simp add: first_node_0)
next
  case (Suc i)
  then have i: "i < length (infraNodes cfg)" by simp
  show ?case
  proof (cases "v < first_node cfg i")
    case True
    with Suc.IH i obtain j k where "j < i" "k < unat (infraNodes cfg ! j)" "v = first_node cfg j + k"
      by auto
    then show ?thesis using less_Suc_eq by blast
  next
    case False
    define k where "k = v - first_node cfg i"
    from False Suc.prems(1) first_node_Suc[OF i]
    have "k < unat (infraNodes cfg ! i)" "v = first_node cfg i + k"
      by (simp_all add: k_def)
    then show ?thesis by blast
  qed
qed

lemma nth_append_block:
  assumes old: "\<And>j k. j < i \<Longrightarrow> k < n j \<Longrightarrow> xs ! (F j + k) = f j k"
    and bound: "\<And>j k. j < i \<Longrightarrow> k < n j \<Longrightarrow> F j + k < length xs"
    and len: "length xs = F i"
    and new: "\<And>k. k < n i \<Longrightarrow> ys ! k = f i k"
    and j: "j < Suc i" and k: "k < n j"
  shows "(xs @ ys) ! (F j + k) = f j k"
proof (cases "j = i")
  case True
  then show ?thesis using new[of k] k len by (simp add: nth_append)
next
  case False
  with j have "j < i" by simp
  from bound[OF this] old[OF this] k show ?thesis by (simp add: nth_append)
qed

lemma first_node_bound:
  assumes "j < i" "i \<le> length (infraNodes cfg)" "k < unat (infraNodes cfg ! j)"
  shows "first_node cfg j + k < first_node cfg i"
proof -
  from assms have "first_node cfg (Suc j) \<le> first_node cfg i"
    by (intro first_node_mono) simp_all
  moreover from assms have "first_node cfg (Suc j) = first_node cfg j + unat (infraNodes cfg ! j)"
    by (intro first_node_Suc) simp
  ultimately show ?thesis using assms(3) by simp
qed

subsection \<open>The address helper on a /24 network\<close>

lemma m_max_24: "m_mask h = 0xFFFFFF00 \<Longrightarrow> m_max h = 254"
  by (simp add: m_max_def not_mask24)

lemma NewAddress_24:
  "m_mask h = 0xFFFFFF00 \<Longrightarrow>
     NewAddress h =
       (if m_address h \<le> 254
        then Inr (m_network h OR m_address h, h\<lparr>m_address := m_address h + 1\<rparr>)
        else Inl Aborted)"
  by (simp add: NewAddress_def m_max_24)

lemma NewNetwork_24:
  "m_mask h = 0xFFFFFF00 \<Longrightarrow>
     NewNetwork h =
       (if uint (m_network h) + 256 < 2 ^ 32
        then Inr (h\<lparr>m_network := m_network h + 256, m_address := m_base h\<rparr>)
        else Inl Aborted)"
  by (simp add: NewNetwork_def not_mask24)

lemma unat_succ_small: "(a :: 32 word) \<le> 254 \<Longrightarrow> unat (a + 1) = unat a + 1"
  by (simp add: word_le_nat_alt unat_word_ariths)

lemma Assign_Inr:
  "Assign h ds = Inr (h', es) \<Longrightarrow>
     h' = h\<lparr>m_address := m_address h + of_nat (length ds)\<rparr> \<and>
     es = map (\<lambda>j. (ds ! j, m_network h OR (m_address h + of_nat j), m_mask h)) [0 ..< length ds]"
proof (induction ds arbitrary: h h' es)
  case Nil
  then show ?case by simp
next
  case (Cons d ds)
  from Cons.prems obtain a h1 h2 es2 where
    na: "NewAddress h = Inr (a, h1)" and as: "Assign h1 ds = Inr (h2, es2)"
    and res: "h' = h2" "es = (d, a, m_mask h) # es2"
    by (auto split: sum.splits prod.splits)
  from na have a: "a = m_network h OR m_address h" and h1: "h1 = h\<lparr>m_address := m_address h + 1\<rparr>"
    by (auto simp: NewAddress_def split: if_splits)
  from Cons.IH[OF as] have ih1: "h2 = h1\<lparr>m_address := m_address h1 + of_nat (length ds)\<rparr>"
    and ih2: "es2 = map (\<lambda>j. (ds ! j, m_network h1 OR (m_address h1 + of_nat j), m_mask h1)) [0 ..< length ds]"
    by simp_all
  have "h' = h\<lparr>m_address := m_address h + of_nat (length (d # ds))\<rparr>"
    using res ih1 h1 by (simp add: add.assoc)
  moreover have "es = map (\<lambda>j. ((d # ds) ! j, m_network h OR (m_address h + of_nat j), m_mask h)) [0 ..< length (d # ds)]"
    using res ih2 h1 a by (simp add: map_upt_Suc add.assoc del: upt_Suc)
  ultimately show ?case by simp
qed

lemma Assign_24_bound:
  "m_mask h = 0xFFFFFF00 \<Longrightarrow> Assign h ds = Inr r \<Longrightarrow> ds \<noteq> [] \<Longrightarrow>
     unat (m_address h) + length ds \<le> 255"
proof (induction ds arbitrary: h r)
  case Nil
  then show ?case by simp
next
  case (Cons d ds)
  from Cons.prems(2) obtain a h1 r1 where
    na: "NewAddress h = Inr (a, h1)" and as: "Assign h1 ds = Inr r1"
    by (auto split: sum.splits prod.splits)
  from na Cons.prems(1) have le: "m_address h \<le> 254" and h1: "h1 = h\<lparr>m_address := m_address h + 1\<rparr>"
    by (auto simp: NewAddress_24 split: if_splits)
  from le have u: "unat (m_address h) \<le> 254" by (simp add: word_le_nat_alt)
  show ?case
  proof (cases "ds = []")
    case True
    with u show ?thesis by simp
  next
    case False
    have "m_mask h1 = 0xFFFFFF00" using h1 Cons.prems(1) by simp
    from Cons.IH[OF this as False] have "unat (m_address h1) + length ds \<le> 255" .
    moreover have "unat (m_address h1) = unat (m_address h) + 1"
      using h1 unat_succ_small[OF le] by simp
    ultimately show ?thesis by simp
  qed
qed

lemma Assign_24_total:
  "m_mask h = 0xFFFFFF00 \<Longrightarrow> unat (m_address h) + length ds \<le> 255 \<Longrightarrow>
     \<exists>r. Assign h ds = Inr r"
proof (induction ds arbitrary: h)
  case Nil
  then show ?case by simp
next
  case (Cons d ds)
  from Cons.prems(2) have u: "unat (m_address h) \<le> 254" by simp
  then have le: "m_address h \<le> 254" by (simp add: word_le_nat_alt)
  define h1 where "h1 = h\<lparr>m_address := m_address h + 1\<rparr>"
  have na: "NewAddress h = Inr (m_network h OR m_address h, h1)"
    using le Cons.prems(1) by (simp add: NewAddress_24 h1_def)
  have m1: "m_mask h1 = 0xFFFFFF00" using Cons.prems(1) by (simp add: h1_def)
  have "unat (m_address h1) = unat (m_address h) + 1"
    using unat_succ_small[OF le] by (simp add: h1_def)
  with Cons.prems(2) have "unat (m_address h1) + length ds \<le> 255" by simp
  from Cons.IH[OF m1 this] obtain r where "Assign h1 ds = Inr r" by blast
  with na show ?case by (cases r) simp
qed

subsection \<open>One iteration keeps the shape of the state\<close>

lemma build_cluster_step:
  assumes nodes: "inv_nodes cfg i s" and addr: "inv_addr cfg i s" and pos: "inv_pos cfg i s"
    and b: "build_cluster cfg i s = Inr s'"
  shows "inv_nodes cfg (Suc i) s' \<and> inv_addr cfg (Suc i) s' \<and> inv_pos cfg (Suc i) s' \<and>
         head_cluster s' = head_cluster s \<and> rng s' = rng s \<and> (inv_idle s \<longrightarrow> inv_idle s')"
proof -
  define n where "n = unat (infraNodes cfg ! i)"
  define N where "N = first_node cfg i"
  from build_cluster_Inr[OF b] obtain h es h' where
    il: "i < length (infraNodes cfg)" and ia: "i < length (ipAddrs s)"
    and as0: "Assign (ipAddrs s ! i) [length (devices s) ..< length (devices s) + unat (infraNodes cfg ! i)] = Inr (h, es)"
    and nn: "NewNetwork h = Inr h'"
    and s0: "s' = s\<lparr>node_count := node_count s + unat (infraNodes cfg ! i),
                  channels := channels s @ [YansWifiChannel],
                  devices := devices s @ map (\<lambda>v. (v, length (channels s)))
                     [node_count s ..< node_count s + unat (infraNodes cfg ! i)],
                  addresses := addresses s @ es,
                  stacks := stacks s @ [node_count s ..< node_count s + unat (infraNodes cfg ! i)],
                  positions := positions s @
                     map (\<lambda>j. (node_count s + j,
                               GridPosition ((int i + 1) * 50) ((int i + 1) * 20) 5 10 2 j))
                       [0 ..< unat (infraNodes cfg ! i)],
                  ipAddrs := list_update (ipAddrs s) i h',
                  wifiPhy := Some (length (channels s)),
                  clusters := clusters s @ [[node_count s ..< node_count s + unat (infraNodes cfg ! i)]],
                  clusterDevices := clusterDevices s @
                     [[length (devices s) ..< length (devices s) + unat (infraNodes cfg ! i)]]\<rparr>"
    apply (elim exE conjE)
    apply (rule that; assumption)
    done
  note as = as0[folded n_def] and s' = s0[folded n_def]
  have NS: "first_node cfg (Suc i) = N + n"
    using first_node_Suc[OF il] by (simp add: N_def n_def)
  have nc: "node_count s = N" and ld: "length (devices s) = N"
    and ch: "channels s = replicate i YansWifiChannel"
    using nodes by (simp_all add: inv_nodes_def N_def)
  have i3: "i < 3" using ia addr by (simp add: inv_addr_def)
  have hi: "ipAddrs s ! i = SetBase (pool_base i) (ipv4 255 255 255 0)"
    using addr i3 by (simp add: inv_addr_def)
  have mk: "m_mask (ipAddrs s ! i) = 0xFFFFFF00"
    by (simp add: hi SetBase_def mask24)
  from Assign_Inr[OF as]
  have es: "es = map (\<lambda>j. (N + j, pool_base i OR (1 + of_nat j), ipv4 255 255 255 0)) [0 ..< n]"
    by (simp add: hi SetBase_def ld)
  have n254: "k < 254" if "k < n" for k
  proof -
    from that have "[length (devices s) ..< length (devices s) + n] \<noteq> []" by simp
    from Assign_24_bound[OF mk as this] that show ?thesis
      by (simp add: hi SetBase_def)
  qed
  have bound: "first_node cfg j + k < N" if "j < i" "k < unat (infraNodes cfg ! j)" for j k
    unfolding N_def using that il by (intro first_node_bound) simp_all
  \<comment> \<open>nodes\<close>
  have dev: "devices s' ! (first_node cfg j + k) = (first_node cfg j + k, j)"
    if "j < Suc i" "k < unat (infraNodes cfg ! j)" for j k
  proof -
    have "(devices s @ map (\<lambda>v. (v, i)) [N ..< N + n]) ! (first_node cfg j + k) =
          (first_node cfg j + k, j)"
    proof (rule nth_append_block[where i = i and n = "\<lambda>j. unat (infraNodes cfg ! j)"
          and F = "first_node cfg" and f = "\<lambda>j k. (first_node cfg j + k, j)"])
      show "devices s ! (first_node cfg j + k) = (first_node cfg j + k, j)"
        if "j < i" "k < unat (infraNodes cfg ! j)" for j k
        using nodes that by (simp add: inv_nodes_def)
      show "first_node cfg j + k < length (devices s)"
        if "j < i" "k < unat (infraNodes cfg ! j)" for j k
        using bound[OF that] ld by simp
      show "length (devices s) = first_node cfg i" using ld N_def by simp
      show "map (\<lambda>v. (v, i)) [N ..< N + n] ! k = (first_node cfg i + k, i)"
        if "k < unat (infraNodes cfg ! i)" for k
        using that by (simp add: n_def N_def)
    qed (use that in simp_all)
    then show ?thesis by (simp add: s' nc ch)
  qed
  have "inv_nodes cfg (Suc i) s'"
    unfolding inv_nodes_def
  proof (intro conjI allI impI)
    show "Suc i \<le> length (infraNodes cfg)" using il by simp
    show "node_count s' = first_node cfg (Suc i)" by (simp add: s' nc NS)
    show "length (devices s') = first_node cfg (Suc i)" by (simp add: s' nc ld NS)
    show "stacks s' = [0 ..< first_node cfg (Suc i)]"
      using nodes upt_add_eq_append[of 0 N n] by (simp add: s' nc NS inv_nodes_def N_def)
    show "channels s' = replicate (Suc i) YansWifiChannel"
      by (simp add: s' ch replicate_append_same)
    show "clusters s' = map (\<lambda>j. [first_node cfg j ..< first_node cfg (Suc j)]) [0 ..< Suc i]"
      using nodes by (simp add: s' nc NS inv_nodes_def N_def)
    show "clusterDevices s' = clusters s'"
      using nodes by (simp add: s' nc ld inv_nodes_def)
    show "devices s' ! (first_node cfg j + k) = (first_node cfg j + k, j)"
      if "j < Suc i \<and> k < unat (infraNodes cfg ! j)" for j k
      using dev that by simp
  qed
  \<comment> \<open>addresses\<close>
  moreover have "inv_addr cfg (Suc i) s'"
    unfolding inv_addr_def
  proof (intro conjI allI impI)
    show "Suc i \<le> 3" using i3 by simp
    show "length (addresses s') = first_node cfg (Suc i)"
      using addr by (simp add: s' es NS inv_addr_def N_def)
    show "length (ipAddrs s') = 3" using addr by (simp add: s' inv_addr_def)
    show "ipAddrs s' ! j = SetBase (pool_base j) (ipv4 255 255 255 0)"
      if "Suc i \<le> j \<and> j < 3" for j
      using addr that by (simp add: s' inv_addr_def)
    show "k < 254" if "j < Suc i \<and> k < unat (infraNodes cfg ! j)" for j k
    proof (cases "j = i")
      case True
      with that n254 show ?thesis by (simp add: n_def)
    next
      case False
      with that have "j < i" "k < unat (infraNodes cfg ! j)" by simp_all
      with addr show ?thesis unfolding inv_addr_def by blast
    qed
    show "addresses s' ! (first_node cfg j + k) =
          (first_node cfg j + k, pool_base j OR (1 + of_nat k), ipv4 255 255 255 0)"
      if jk: "j < Suc i \<and> k < unat (infraNodes cfg ! j)" for j k
    proof -
      have "(addresses s @ es) ! (first_node cfg j + k) =
          (first_node cfg j + k, pool_base j OR (1 + of_nat k), ipv4 255 255 255 0)"
      proof (rule nth_append_block[where i = i and n = "\<lambda>j. unat (infraNodes cfg ! j)"
            and F = "first_node cfg"
            and f = "\<lambda>j k. (first_node cfg j + k, pool_base j OR (1 + of_nat k),
                             ipv4 255 255 255 0)"])
        show "addresses s ! (first_node cfg j + k) =
            (first_node cfg j + k, pool_base j OR (1 + of_nat k), ipv4 255 255 255 0)"
          if "j < i" "k < unat (infraNodes cfg ! j)" for j k
          using addr that by (simp add: inv_addr_def)
        show "first_node cfg j + k < length (addresses s)"
          if "j < i" "k < unat (infraNodes cfg ! j)" for j k
          using bound[OF that] addr by (simp add: inv_addr_def N_def)
        show "length (addresses s) = first_node cfg i" using addr by (simp add: inv_addr_def)
        show "es ! k = (first_node cfg i + k, pool_base i OR (1 + of_nat k), ipv4 255 255 255 0)"
          if "k < unat (infraNodes cfg ! i)" for k
          using that by (simp add: es n_def N_def)
      qed (use jk in simp_all)
      then show ?thesis by (simp add: s')
    qed
  qed
  \<comment> \<open>positions\<close>
  moreover have "inv_pos cfg (Suc i) s'"
    unfolding inv_pos_def
  proof (intro conjI allI impI)
    show "length (positions s') = first_node cfg (Suc i)"
      using pos by (simp add: s' NS inv_pos_def N_def)
    show "positions s' ! (first_node cfg j + k) =
          (first_node cfg j + k, GridPosition ((int j + 1) * 50) ((int j + 1) * 20) 5 10 2 k)"
      if jk: "j < Suc i \<and> k < unat (infraNodes cfg ! j)" for j k
    proof -
      have "(positions s @ map (\<lambda>j. (N + j,
                GridPosition ((int i + 1) * 50) ((int i + 1) * 20) 5 10 2 j)) [0 ..< n])
              ! (first_node cfg j + k) =
          (first_node cfg j + k, GridPosition ((int j + 1) * 50) ((int j + 1) * 20) 5 10 2 k)"
      proof (rule nth_append_block[where i = i and n = "\<lambda>j. unat (infraNodes cfg ! j)"
            and F = "first_node cfg"
            and f = "\<lambda>j k. (first_node cfg j + k,
                   GridPosition ((int j + 1) * 50) ((int j + 1) * 20) 5 10 2 k)"])
        show "positions s ! (first_node cfg j + k) =
            (first_node cfg j + k, GridPosition ((int j + 1) * 50) ((int j + 1) * 20) 5 10 2 k)"
          if "j < i" "k < unat (infraNodes cfg ! j)" for j k
          using pos that by (simp add: inv_pos_def)
        show "first_node cfg j + k < length (positions s)"
          if "j < i" "k < unat (infraNodes cfg ! j)" for j k
          using bound[OF that] pos by (simp add: inv_pos_def N_def)
        show "length (positions s) = first_node cfg i" using pos by (simp add: inv_pos_def)
        show "map (\<lambda>j. (N + j, GridPosition ((int i + 1) * 50) ((int i + 1) * 20) 5 10 2 j))
                [0 ..< n] ! k =
              (first_node cfg i + k, GridPosition ((int i + 1) * 50) ((int i + 1) * 20) 5 10 2 k)"
          if "k < unat (infraNodes cfg ! i)" for k
          using that by (simp add: n_def N_def)
      qed (use jk in simp_all)
      then show ?thesis by (simp add: s' nc)
    qed
  qed
  moreover have "head_cluster s' = head_cluster s" "rng s' = rng s" by (simp_all add: s')
  moreover have "inv_idle s \<longrightarrow> inv_idle s'" by (simp add: s' inv_idle_def)
  ultimately show ?thesis by blast
qed

lemma select_head_step:
  assumes nodes: "inv_nodes cfg (Suc i) s" and hd: "inv_head cfg uni g i s"
    and sel: "select_head cfg uni i s = Inr s'"
  shows "inv_head cfg uni g (Suc i) s' \<and>
         s' = s\<lparr>rng := rng s', head_cluster := head_cluster s'\<rparr>"
proof -
  define r where "r = fst (uni 0 (sint (infraNodes cfg ! i - 1)) (rng s))"
  from select_head_Inr[OF sel]
  have il: "i < length (infraNodes cfg)" and b0: "0 \<le> sint (infraNodes cfg ! i - 1)"
    and r0: "0 \<le> r" and rl: "nat r < length (clusters s ! i)"
    and s': "s' = s\<lparr>rng := snd (uni 0 (sint (infraNodes cfg ! i - 1)) (rng s)),
                head_cluster := head_cluster s @ [clusters s ! i ! nat r]\<rparr>"
    by (simp_all add: r_def)
  have g: "rng s = gen cfg uni g i" and lh: "length (head_cluster s) = i"
    using hd by (simp_all add: inv_head_def)
  have rd: "r = draw cfg uni g i" by (simp add: r_def draw_def g)
  have cl: "clusters s ! i = [first_node cfg i ..< first_node cfg (Suc i)]"
  proof -
    have "clusters s = map (\<lambda>j. [first_node cfg j ..< first_node cfg (Suc j)]) [0 ..< Suc i]"
      using nodes by (simp add: inv_nodes_def)
    then have "clusters s ! i = map (\<lambda>j. [first_node cfg j ..< first_node cfg (Suc j)]) [0 ..< Suc i] ! i"
      by simp
    also have "\<dots> = [first_node cfg i ..< first_node cfg (Suc i)]"
      by (simp only: nth_map_upt[of i "Suc i" 0] lessI minus_nat.diff_0 add_0)
    finally show ?thesis .
  qed
  have len: "length (clusters s ! i) = unat (infraNodes cfg ! i)"
    by (simp add: cl first_node_Suc[OF il])
  have pick: "clusters s ! i ! nat r = first_node cfg i + nat r"
    using rl by (simp add: cl)
  have "inv_head cfg uni g (Suc i) s'"
    unfolding inv_head_def
  proof (intro conjI allI impI)
    show "length (head_cluster s') = Suc i" by (simp add: s' lh)
    show "rng s' = gen cfg uni g (Suc i)" by (simp add: s' g)
    fix j assume j: "j < Suc i"
    show "0 \<le> sint (infraNodes cfg ! j - 1)"
    proof (cases "j = i")
      case True
      with b0 show ?thesis by simp
    next
      case False
      with j have "j < i" by simp
      with hd show ?thesis unfolding inv_head_def by blast
    qed
    show "0 \<le> draw cfg uni g j"
    proof (cases "j = i")
      case True
      with r0 rd show ?thesis by simp
    next
      case False
      with j have "j < i" by simp
      with hd show ?thesis unfolding inv_head_def by blast
    qed
    show "nat (draw cfg uni g j) < unat (infraNodes cfg ! j)"
    proof (cases "j = i")
      case True
      with rl len rd show ?thesis by simp
    next
      case False
      with j have "j < i" by simp
      with hd show ?thesis unfolding inv_head_def by blast
    qed
    show "head_cluster s' ! j = first_node cfg j + nat (draw cfg uni g j)"
    proof (cases "j = i")
      case True
      with pick lh show ?thesis by (simp add: s' rd nth_append)
    next
      case False
      with j have ji: "j < i" by simp
      with hd have "head_cluster s ! j = first_node cfg j + nat (draw cfg uni g j)"
        unfolding inv_head_def by blast
      with ji lh show ?thesis by (simp add: s' nth_append)
    qed
  qed
  moreover have "s' = s\<lparr>rng := rng s', head_cluster := head_cluster s'\<rparr>"
    by (simp add: s')
  ultimately show ?thesis by blast
qed

lemma inv_frame:
  "inv_nodes cfg i (s\<lparr>rng := a, head_cluster := b\<rparr>) = inv_nodes cfg i s"
  "inv_addr cfg i (s\<lparr>rng := a, head_cluster := b\<rparr>) = inv_addr cfg i s"
  "inv_pos cfg i (s\<lparr>rng := a, head_cluster := b\<rparr>) = inv_pos cfg i s"
  "inv_idle (s\<lparr>rng := a, head_cluster := b\<rparr>) = inv_idle s"
  by (simp_all add: inv_nodes_def inv_addr_def inv_pos_def inv_idle_def)

lemma inv_head_frame:
  "head_cluster s' = head_cluster s \<Longrightarrow> rng s' = rng s \<Longrightarrow>
     inv_head cfg uni g i s' = inv_head cfg uni g i s"
  by (simp add: inv_head_def)

lemma loop_body_step:
  assumes a: "assembled cfg uni g i s" and b: "loop_body cfg uni i s = Inr s'"
  shows "assembled cfg uni g (Suc i) s'"
proof -
  from b obtain s1 where b1: "build_cluster cfg i s = Inr s1"
    and b2: "select_head cfg uni i s1 = Inr s'"
    by (cases "build_cluster cfg i s") (simp_all add: loop_body_def)
  from a have nodes: "inv_nodes cfg i s" and addr: "inv_addr cfg i s" and pos: "inv_pos cfg i s"
    and hd: "inv_head cfg uni g i s" and idle: "inv_idle s"
    by (simp_all add: assembled_def)
  from build_cluster_step[OF nodes addr pos b1] idle
  have n1: "inv_nodes cfg (Suc i) s1" and a1: "inv_addr cfg (Suc i) s1"
    and p1: "inv_pos cfg (Suc i) s1" and h1: "head_cluster s1 = head_cluster s"
    and r1: "rng s1 = rng s" and i1: "inv_idle s1"
    by simp_all
  have hd1: "inv_head cfg uni g i s1"
    using hd inv_head_frame[OF h1 r1] by simp
  from select_head_step[OF n1 hd1 b2]
  have h2: "inv_head cfg uni g (Suc i) s'"
    and fr: "s' = s1\<lparr>rng := rng s', head_cluster := head_cluster s'\<rparr>"
    by simp_all
  have "inv_nodes cfg (Suc i) s'" by (subst fr) (simp only: inv_frame n1)
  moreover have "inv_addr cfg (Suc i) s'" by (subst fr) (simp only: inv_frame a1)
  moreover have "inv_pos cfg (Suc i) s'" by (subst fr) (simp only: inv_frame p1)
  moreover have "inv_idle s'" by (subst fr) (simp only: inv_frame i1)
  ultimately show ?thesis using h2 by (simp add: assembled_def)
qed

subsection \<open>The pools of the source\<close>

lemma sint_pred:
  assumes "1 \<le> (w :: 32 word)" "w \<le> 254"
  shows "sint (w - 1) = int (unat w) - 1"
proof -
  from assms have u: "1 \<le> unat w" "unat w \<le> 254"
    by (simp_all add: word_le_nat_alt)
  then have "w \<noteq> 0" by auto
  then have um: "unat (w - 1) = unat w - 1" by (rule unat_minus_one)
  have "uint (w - 1) = int (unat (w - 1))" by simp
  also have "\<dots> = int (unat w - 1)" by (simp only: um)
  also have "\<dots> = int (unat w) - 1" using u by (simp only: of_nat_diff of_nat_1)
  finally have ui: "uint (w - 1) = int (unat w) - 1" .
  have "sint (w - 1) = signed_take_bit 31 (uint (w - 1))"
    by (simp add: sint_uint)
  also have "\<dots> = uint (w - 1)"
  proof (rule signed_take_bit_int_eq_self)
    have "- (2 ^ 31) \<le> (0 :: int)" by simp
    also have "0 \<le> uint (w - 1)" by (rule uint_nonnegative)
    finally show "- (2 ^ 31) \<le> uint (w - 1)" .
    have "int (unat w) \<le> 254" using assms(2) by (simp add: word_le_def)
    then show "uint (w - 1) < 2 ^ 31" unfolding ui by simp
  qed
  finally show ?thesis unfolding ui .
qed

lemma pool_base_vals:
  "pool_base 0 = ipv4 192 167 0 0" "pool_base (Suc 0) = ipv4 192 168 0 0"
  "pool_base 2 = ipv4 192 169 0 0"
  by (simp_all add: pool_base_def)

lemma lt3_cases: "j < 3 \<Longrightarrow> j = 0 \<or> j = Suc 0 \<or> j = 2"
  by arith

lemma pool_base_aligned: "j < 3 \<Longrightarrow> pool_base j AND 0xFFFFFF00 = pool_base j"
  by (auto dest!: lt3_cases simp: pool_base_def ipv4_def)

lemma pool_base_room: "j < 3 \<Longrightarrow> uint (pool_base j) + 256 < 2 ^ 32"
  by (auto dest!: lt3_cases simp: pool_base_def ipv4_def)

lemma pool_base_inj: "i < 3 \<Longrightarrow> j < 3 \<Longrightarrow> pool_base i = pool_base j \<Longrightarrow> i = j"
  by (auto dest!: lt3_cases simp: pool_base_def ipv4_def)

lemma pool_base_not_backbone: "j < 3 \<Longrightarrow> pool_base j \<noteq> ipv4 172 16 0 0"
  by (auto dest!: lt3_cases simp: pool_base_def ipv4_def)

lemma backbone_aligned: "ipv4 172 16 0 0 AND 0xFFFFFF00 = ipv4 172 16 0 0"
  by (simp add: ipv4_def)

subsection \<open>The state after the loop and after the run\<close>

lemma assembled_initial:
  "assembled cfg uni g 0
     ((initial g)\<lparr>ipAddrs := [SetBase (ipv4 192 167 0 0) (ipv4 255 255 255 0),
                                SetBase (ipv4 192 168 0 0) (ipv4 255 255 255 0),
                                SetBase (ipv4 192 169 0 0) (ipv4 255 255 255 0)]\<rparr>)"
proof -
  have "[SetBase (ipv4 192 167 0 0) (ipv4 255 255 255 0),
         SetBase (ipv4 192 168 0 0) (ipv4 255 255 255 0),
         SetBase (ipv4 192 169 0 0) (ipv4 255 255 255 0)] ! j =
        SetBase (pool_base j) (ipv4 255 255 255 0)" if "j < 3" for j
    using lt3_cases[OF that] by (auto simp: pool_base_vals)
  then show ?thesis
    by (simp add: assembled_def inv_nodes_def inv_addr_def inv_pos_def inv_head_def
        inv_idle_def initial_def first_node_def)
qed

lemma loop_assembled:
  assumes "for_loop [0 ..< k] (loop_body cfg uni)
     ((initial g)\<lparr>ipAddrs := [SetBase (ipv4 192 167 0 0) (ipv4 255 255 255 0),
                                SetBase (ipv4 192 168 0 0) (ipv4 255 255 255 0),
                                SetBase (ipv4 192 169 0 0) (ipv4 255 255 255 0)]\<rparr>) = Inr s"
  shows "assembled cfg uni g k s"
  by (rule for_loop_upt_Inr[where P = "assembled cfg uni g" and body = "loop_body cfg uni",
        OF assms assembled_initial loop_body_step])

lemma main_body_unfold:
  assumes "\<not> stopTime cfg < 10"
  shows "main_body cfg uni g =
      (case for_loop [0 ..< cluster_count cfg] (loop_body cfg uni) (at_loop_entry g) of
         Inl (e, s2) \<Rightarrow> (e, s2)
       | Inr s2 \<Rightarrow>
           (case backbone s2 of
              Inl (e, s3) \<Rightarrow> (e, s3)
            | Inr s3 \<Rightarrow> (Exited 0, simulate cfg s3)))"
  using assms by (simp add: main_body_def at_loop_entry_def cluster_count_def Let_def)

lemma loop_assembled':
  assumes "for_loop [0 ..< k] (loop_body cfg uni) (at_loop_entry g) = Inr s"
  shows "assembled cfg uni g k s"
  using assms unfolding at_loop_entry_def by (rule loop_assembled)

lemma main_body_Exited:
  assumes run: "main_body cfg uni g = (Exited 0, s)"
  shows "\<not> stopTime cfg < 10 \<and>
    (\<exists>s2 h'. assembled cfg uni g (cluster_count cfg) s2 \<and>
       s = s2\<lparr>channels := channels s2 @ [CsmaChannel],
              devices := devices s2 @ map (\<lambda>v. (v, cluster_count cfg)) (head_cluster s2),
              addresses := addresses s2 @
                map (\<lambda>j. (first_node cfg (cluster_count cfg) + j,
                          ipv4 172 16 0 0 OR (1 + of_nat j), ipv4 255 255 255 0))
                  [0 ..< cluster_count cfg],
              ipAddrsH := Some h',
              head_clusterDevices :=
                [first_node cfg (cluster_count cfg) ..<
                 first_node cfg (cluster_count cfg) + cluster_count cfg],
              anim_files := [''taller.xml''],
              stop_at := Some (unat (stopTime cfg)),
              run_done := True,
              destroyed := True\<rparr>)"
proof -
  define k where "k = cluster_count cfg"
  define N where "N = first_node cfg k"
  have st: "\<not> stopTime cfg < 10"
  proof
    assume "stopTime cfg < 10"
    then have "fst (main_body cfg uni g) = Exited 1" by (simp add: main_body_def Let_def)
    with run show False by simp
  qed
  note mb = main_body_unfold[OF st, of uni g, folded k_def]
  obtain s2 where l: "for_loop [0 ..< k] (loop_body cfg uni) (at_loop_entry g) = Inr s2"
  proof (cases "for_loop [0 ..< k] (loop_body cfg uni) (at_loop_entry g)")
    case (Inl x)
    obtain e t where x: "x = (e, t)" by (cases x)
    from for_loop_upt_Inl[OF Inl] obtain i t0 where "loop_body cfg uni i t0 = Inl x" by auto
    from loop_body_Inl[OF this[unfolded x]] have "e = Aborted \<or> e = Undefined" by simp
    moreover from run have "e = Exited 0" by (simp add: mb Inl x)
    ultimately show ?thesis by auto
  next
    case (Inr s2)
    then show ?thesis by (rule that)
  qed
  obtain s3 where bb: "backbone s2 = Inr s3"
  proof (cases "backbone s2")
    case (Inl x)
    obtain e t where x: "x = (e, t)" by (cases x)
    from backbone_Inl[OF Inl[unfolded x]] have "e = Aborted" by simp
    moreover from run have "e = Exited 0" by (simp add: mb l Inl x)
    ultimately show ?thesis by simp
  next
    case (Inr s3)
    then show ?thesis by (rule that)
  qed
  from run have s: "s = simulate cfg s3" by (simp add: mb l bb)
  have asm: "assembled cfg uni g k s2" using l by (rule loop_assembled')
  then have ld: "length (devices s2) = N" and lh: "length (head_cluster s2) = k"
    and lc: "length (channels s2) = k" and idle: "inv_idle s2"
    by (simp_all add: assembled_def inv_nodes_def inv_head_def N_def)
  from backbone_Inr[OF bb] obtain h es h' where
    as: "Assign (SetBase (ipv4 172 16 0 0) (ipv4 255 255 255 0))
             [length (devices s2) ..< length (devices s2) + length (head_cluster s2)] = Inr (h, es)"
    and s3: "s3 = s2\<lparr>channels := channels s2 @ [CsmaChannel],
                 devices := devices s2 @ map (\<lambda>v. (v, length (channels s2))) (head_cluster s2),
                 addresses := addresses s2 @ es,
                 ipAddrsH := Some h',
                 head_clusterDevices :=
                   [length (devices s2) ..< length (devices s2) + length (head_cluster s2)]\<rparr>"
    apply (elim exE conjE)
    apply (rule that; assumption)
    done
  from Assign_Inr[OF as]
  have es: "es = map (\<lambda>j. (N + j, ipv4 172 16 0 0 OR (1 + of_nat j), ipv4 255 255 255 0)) [0 ..< k]"
    by (simp add: SetBase_def ld lh)
  have "s = s2\<lparr>channels := channels s2 @ [CsmaChannel],
              devices := devices s2 @ map (\<lambda>v. (v, k)) (head_cluster s2),
              addresses := addresses s2 @
                map (\<lambda>j. (N + j, ipv4 172 16 0 0 OR (1 + of_nat j), ipv4 255 255 255 0)) [0 ..< k],
              ipAddrsH := Some h',
              head_clusterDevices := [N ..< N + k],
              anim_files := [''taller.xml''],
              stop_at := Some (unat (stopTime cfg)),
              run_done := True,
              destroyed := True\<rparr>"
    using idle by (simp add: s s3 es simulate_def ld lh lc inv_idle_def)
  with asm st show ?thesis unfolding k_def N_def by blast
qed

subsection \<open>The run completes on a valid configuration\<close>

lemma in_boundsD:
  assumes "in_bounds uni" "a \<le> b"
  shows "a \<le> fst (uni a b g) \<and> fst (uni a b g) \<le> b"
  using assms unfolding in_bounds_def by blast

lemma valid_size:
  assumes "valid_config cfg" "i < cluster_count cfg"
  shows "i < length (infraNodes cfg) \<and> i < 3 \<and>
         1 \<le> infraNodes cfg ! i \<and> infraNodes cfg ! i \<le> 254"
proof -
  from assms have k: "cluster_count cfg \<le> 3" "cluster_count cfg \<le> length (infraNodes cfg)"
    and la: "list_all (\<lambda>n. 1 \<le> n \<and> n \<le> 254) (take (cluster_count cfg) (infraNodes cfg))"
    by (simp_all add: valid_config_def cluster_count_def)
  from assms(2) k have il: "i < length (infraNodes cfg)" "i < 3" by simp_all
  have "take (cluster_count cfg) (infraNodes cfg) ! i = infraNodes cfg ! i"
    using assms(2) by simp
  moreover have "i < length (take (cluster_count cfg) (infraNodes cfg))"
    using assms(2) k by simp
  ultimately have "1 \<le> infraNodes cfg ! i \<and> infraNodes cfg ! i \<le> 254"
    using la by (metis list_all_length)
  with il show ?thesis by simp
qed

lemma build_cluster_total:
  assumes nodes: "inv_nodes cfg i s" and addr: "inv_addr cfg i s"
    and il: "i < length (infraNodes cfg)" and i3: "i < 3"
    and sz: "infraNodes cfg ! i \<le> 254"
  shows "\<exists>s'. build_cluster cfg i s = Inr s'"
proof -
  define n where "n = unat (infraNodes cfg ! i)"
  define ds where "ds = [length (devices s) ..< length (devices s) + n]"
  have n: "n \<le> 254" using sz by (simp add: n_def word_le_nat_alt)
  have la: "length (ipAddrs s) = 3"
    and hi: "ipAddrs s ! i = SetBase (pool_base i) (ipv4 255 255 255 0)"
    using addr i3 by (simp_all add: inv_addr_def)
  have mk: "m_mask (ipAddrs s ! i) = 0xFFFFFF00"
    by (simp add: hi SetBase_def mask24)
  have "unat (m_address (ipAddrs s ! i)) + length ds \<le> 255"
    using n by (simp add: hi SetBase_def ds_def)
  from Assign_24_total[OF mk this] obtain h es where as: "Assign (ipAddrs s ! i) ds = Inr (h, es)"
    by force
  from Assign_Inr[OF as] have h: "m_mask h = 0xFFFFFF00" "m_network h = pool_base i"
    by (simp_all add: hi SetBase_def mask24)
  from NewNetwork_24[OF h(1)] pool_base_room[OF i3] h(2)
  obtain h' where nn: "NewNetwork h = Inr h'" by simp
  show ?thesis
    using il i3 la as nn
    by (simp add: build_cluster_def Channel_Create_def Create_def Install_def
        internet_Install_def Let_def n_def ds_def)
qed

lemma select_head_total:
  assumes nodes: "inv_nodes cfg (Suc i) s" and ib: "in_bounds uni"
    and sz: "1 \<le> infraNodes cfg ! i" "infraNodes cfg ! i \<le> 254"
  shows "\<exists>s'. select_head cfg uni i s = Inr s'"
proof -
  define b where "b = sint (infraNodes cfg ! i - 1)"
  define r where "r = fst (uni 0 b (rng s))"
  have il: "i < length (infraNodes cfg)" using nodes by (simp add: inv_nodes_def)
  have cs: "clusters s = map (\<lambda>j. [first_node cfg j ..< first_node cfg (Suc j)]) [0 ..< Suc i]"
    using nodes by (simp add: inv_nodes_def)
  then have lc: "i < length (clusters s)" by simp
  have "clusters s ! i = map (\<lambda>j. [first_node cfg j ..< first_node cfg (Suc j)]) [0 ..< Suc i] ! i"
    using cs by simp
  also have "\<dots> = [first_node cfg i ..< first_node cfg (Suc i)]"
    by (simp only: nth_map_upt[of i "Suc i" 0] lessI minus_nat.diff_0 add_0)
  finally have len: "length (clusters s ! i) = unat (infraNodes cfg ! i)"
    by (simp add: first_node_Suc[OF il])
  have b: "b = int (unat (infraNodes cfg ! i)) - 1"
    unfolding b_def using sz by (rule sint_pred)
  have u1: "1 \<le> unat (infraNodes cfg ! i)" using sz(1) by (simp add: word_le_nat_alt)
  have ui: "1 \<le> int (unat (infraNodes cfg ! i))" using sz(1) by (simp add: word_le_def)
  then have b0: "0 \<le> b" unfolding b by linarith
  from in_boundsD[OF ib b0, of "rng s"] have r: "0 \<le> r" "r \<le> b" by (simp_all add: r_def)
  have "r < int (unat (infraNodes cfg ! i))" using r(2) b by linarith
  then have "nat r < unat (infraNodes cfg ! i)" by (simp only: nat_less_iff[OF r(1)])
  then have rl: "nat r < length (clusters s ! i)" by (simp only: len)
  obtain x g' where u: "uni 0 b (rng s) = (x, g')" by (cases "uni 0 b (rng s)")
  then have x: "x = r" by (simp add: r_def)
  show ?thesis
    using il lc b0 r rl u x
    by (simp add: select_head_def Let_def b_def[symmetric])
qed

lemma loop_body_total:
  assumes a: "assembled cfg uni g i s" and i: "i < cluster_count cfg"
    and v: "valid_config cfg" and ib: "in_bounds uni"
  shows "\<exists>s'. loop_body cfg uni i s = Inr s'"
proof -
  from valid_size[OF v i] have il: "i < length (infraNodes cfg)" and i3: "i < 3"
    and sz: "1 \<le> infraNodes cfg ! i" "infraNodes cfg ! i \<le> 254"
    by simp_all
  from a have nodes: "inv_nodes cfg i s" and addr: "inv_addr cfg i s" and pos: "inv_pos cfg i s"
    by (simp_all add: assembled_def)
  from build_cluster_total[OF nodes addr il i3 sz(2)] obtain s1 where
    b1: "build_cluster cfg i s = Inr s1" by blast
  from build_cluster_step[OF nodes addr pos b1] have "inv_nodes cfg (Suc i) s1" by simp
  from select_head_total[OF this ib sz] obtain s' where "select_head cfg uni i s1 = Inr s'"
    by blast
  with b1 show ?thesis by (simp add: loop_body_def)
qed

lemma backbone_total:
  assumes "length (head_cluster s) \<le> 3"
  shows "\<exists>s'. backbone s = Inr s'"
proof -
  define ds where "ds = [length (devices s) ..< length (devices s) + length (head_cluster s)]"
  define h0 where "h0 = SetBase (ipv4 172 16 0 0) (ipv4 255 255 255 0)"
  have mk: "m_mask h0 = 0xFFFFFF00" by (simp add: h0_def SetBase_def mask24)
  have "unat (m_address h0) + length ds \<le> 255"
    using assms by (simp add: h0_def SetBase_def ds_def)
  from Assign_24_total[OF mk this] obtain h es where as: "Assign h0 ds = Inr (h, es)"
    by force
  from Assign_Inr[OF as] have h: "m_mask h = 0xFFFFFF00" "m_network h = ipv4 172 16 0 0"
    by (simp_all add: h0_def SetBase_def mask24)
  have "uint (ipv4 172 16 0 0) + 256 < 2 ^ 32" by (simp add: ipv4_def)
  with NewNetwork_24[OF h(1)] h(2) obtain h' where nn: "NewNetwork h = Inr h'" by simp
  show ?thesis
    using as nn
    by (simp add: backbone_def Channel_Create_def Install_def Let_def ds_def h0_def)
qed

lemma main_body_total:
  assumes v: "valid_config cfg" and ib: "in_bounds uni"
  shows "\<exists>s. main_body cfg uni g = (Exited 0, s)"
proof -
  have "10 \<le> stopTime cfg" using v by (simp add: valid_config_def)
  then have st: "\<not> stopTime cfg < 10" by (simp only: not_less)
  have "\<exists>s2. for_loop [0 ..< cluster_count cfg] (loop_body cfg uni) (at_loop_entry g) = Inr s2"
  proof (rule for_loop_upt_total[where P = "assembled cfg uni g"])
    show "assembled cfg uni g 0 (at_loop_entry g)"
      unfolding at_loop_entry_def by (rule assembled_initial)
    show "assembled cfg uni g (Suc i) t'"
      if "assembled cfg uni g i t" "loop_body cfg uni i t = Inr t'" for i t t'
      using that by (rule loop_body_step)
    show "\<exists>t'. loop_body cfg uni i t = Inr t'"
      if "i < cluster_count cfg" "assembled cfg uni g i t" for i t
      using that(2) that(1) v ib by (rule loop_body_total)
  qed
  then obtain s2 where l: "for_loop [0 ..< cluster_count cfg] (loop_body cfg uni) (at_loop_entry g) = Inr s2"
    by blast
  have "assembled cfg uni g (cluster_count cfg) s2" using l by (rule loop_assembled')
  then have "length (head_cluster s2) = cluster_count cfg"
    by (simp add: assembled_def inv_head_def)
  moreover have "cluster_count cfg \<le> 3" using v by (simp add: valid_config_def cluster_count_def)
  ultimately have "length (head_cluster s2) \<le> 3" by simp
  from backbone_total[OF this] obtain s3 where "backbone s2 = Inr s3" by blast
  with l show ?thesis by (simp add: main_body_unfold[OF st])
qed

lemma lcg_uni_in_bounds: "in_bounds lcg_uni"
  unfolding in_bounds_def lcg_uni_def
proof (intro allI impI)
  fix a b :: int and g :: nat
  assume "a \<le> b"
  then have p: "0 < b - a + 1" by simp
  have "0 \<le> int g mod (b - a + 1)" using p by (rule pos_mod_sign)
  moreover have "int g mod (b - a + 1) < b - a + 1" using p by (rule pos_mod_bound)
  ultimately show "a \<le> fst (a + int g mod (b - a + 1), (g * 1103515245 + 12345) mod 2 ^ 31) \<and>
    fst (a + int g mod (b - a + 1), (g * 1103515245 + 12345) mod 2 ^ 31) \<le> b"
    by simp
qed

lemma shipped_valid: "valid_config shipped"
  by (simp add: valid_config_def shipped_def)

lemma shipped_count: "cluster_count shipped = 2"
  by (simp add: cluster_count_def shipped_def)

lemma stop_time_only: "valid_config cfg \<Longrightarrow> 10 \<le> t \<Longrightarrow> valid_config (cfg\<lparr>stopTime := t\<rparr>)"
  by (simp add: valid_config_def)

subsection \<open>What a completed run has built\<close>

lemma cluster_nth:
  assumes "inv_nodes cfg k s" "i < k"
  shows "clusters s ! i = [first_node cfg i ..< first_node cfg (Suc i)]"
proof -
  have "clusters s = map (\<lambda>j. [first_node cfg j ..< first_node cfg (Suc j)]) [0 ..< k]"
    using assms(1) by (simp add: inv_nodes_def)
  then have "clusters s ! i = map (\<lambda>j. [first_node cfg j ..< first_node cfg (Suc j)]) [0 ..< k] ! i"
    by simp
  also have "\<dots> = [first_node cfg i ..< first_node cfg (Suc i)]"
    using assms(2) by (simp only: nth_map_upt[of i k 0] minus_nat.diff_0 add_0)
  finally show ?thesis .
qed

lemma loop_body_cong:
  assumes "infraNodes cfg1 = infraNodes cfg2"
  shows "loop_body cfg1 uni = loop_body cfg2 uni"
proof (intro ext)
  fix i and s :: "'a state"
  have b: "build_cluster cfg1 i s = build_cluster cfg2 i s"
    unfolding build_cluster_def assms by (rule refl)
  have "select_head cfg1 uni i t = select_head cfg2 uni i t" for t
    unfolding select_head_def assms by (rule refl)
  with b show "loop_body cfg1 uni i s = loop_body cfg2 uni i s"
    by (simp add: loop_body_def split: sum.splits)
qed

lemma GridPosition_strip:
  "MinX \<le> fst (GridPosition MinX MinY 5 10 2 a) \<and>
   fst (GridPosition MinX MinY 5 10 2 a) \<le> MinX + 5"
proof -
  have "a mod 2 = 0 \<or> a mod 2 = 1" by arith
  then show ?thesis by (auto simp: GridPosition_def)
qed

lemma filter_upt_eq: "filter (\<lambda>d. d = v) [0 ..< n] = (if v < n then [v] else [])"
  by (induction n) auto

lemma filter_nth_distinct:
  assumes "distinct xs" "i < length xs"
  shows "filter (\<lambda>j. xs ! j = xs ! i) [0 ..< length xs] = [i]"
proof -
  have "filter (\<lambda>j. xs ! j = xs ! i) [0 ..< length xs] = filter (\<lambda>j. j = i) [0 ..< length xs]"
    by (rule filter_cong) (use assms in \<open>auto simp: nth_eq_iff_index_eq\<close>)
  with assms(2) show ?thesis by (simp add: filter_upt_eq)
qed

lemma filter_nth_notin:
  assumes "v \<notin> set xs"
  shows "filter (\<lambda>j. xs ! j = v) [0 ..< length xs] = []"
  using assms by (auto simp: filter_empty_conv)

lemma upt_shift: "[n ..< n + k] = map (\<lambda>j. n + j) [0 ..< k]"
  by (induction k) simp_all

lemma device_of_node:
  assumes "inv_nodes cfg k s" "d < first_node cfg k"
  shows "\<exists>j a. j < k \<and> a < unat (infraNodes cfg ! j) \<and> d = first_node cfg j + a \<and>
           devices s ! d = (d, j)"
proof -
  from assms have kl: "k \<le> length (infraNodes cfg)" by (simp add: inv_nodes_def)
  from node_cluster_exists[OF assms(2) kl] obtain j a where
    ja: "j < k" "a < unat (infraNodes cfg ! j)" "d = first_node cfg j + a" by blast
  with assms(1) have "devices s ! d = (d, j)" unfolding inv_nodes_def by blast
  with ja show ?thesis by blast
qed

lemma head_distinct:
  assumes nodes: "inv_nodes cfg k s" and hd: "inv_head cfg uni g k s"
  shows "distinct (head_cluster s)"
  unfolding distinct_conv_nth
proof (intro allI impI)
  fix i j assume i: "i < length (head_cluster s)" and j: "j < length (head_cluster s)"
    and ne: "i \<noteq> j"
  from nodes have kl: "k \<le> length (infraNodes cfg)" by (simp add: inv_nodes_def)
  from hd i j have ik: "i < k" and jk: "j < k" by (simp_all add: inv_head_def)
  from hd ik have hi: "head_cluster s ! i = first_node cfg i + nat (draw cfg uni g i)"
    and ri: "nat (draw cfg uni g i) < unat (infraNodes cfg ! i)"
    unfolding inv_head_def by blast+
  from hd jk have hj: "head_cluster s ! j = first_node cfg j + nat (draw cfg uni g j)"
    and rj: "nat (draw cfg uni g j) < unat (infraNodes cfg ! j)"
    unfolding inv_head_def by blast+
  show "head_cluster s ! i \<noteq> head_cluster s ! j"
  proof
    assume "head_cluster s ! i = head_cluster s ! j"
    with hi hj have "first_node cfg i + nat (draw cfg uni g i) =
        first_node cfg j + nat (draw cfg uni g j)" by simp
    from node_cluster_unique[OF this ri rj] ik jk kl have "i = j" by simp
    with ne show False by simp
  qed
qed

lemma run_facts:
  assumes run: "main_body cfg uni g = (Exited 0, s)"
  shows run_count: "cluster_count cfg \<le> length (infraNodes cfg) \<and> cluster_count cfg \<le> 3"
    and run_sizes: "node_count s = first_node cfg (cluster_count cfg) \<and>
      length (devices s) = first_node cfg (cluster_count cfg) + cluster_count cfg \<and>
      length (addresses s) = first_node cfg (cluster_count cfg) + cluster_count cfg \<and>
      length (head_cluster s) = cluster_count cfg \<and> distinct (head_cluster s)"
    and run_channels: "channels s = replicate (cluster_count cfg) YansWifiChannel @ [CsmaChannel]"
    and run_containers:
      "clusters s = map (\<lambda>j. [first_node cfg j ..< first_node cfg (Suc j)]) [0 ..< cluster_count cfg] \<and>
       clusterDevices s = clusters s \<and>
       head_clusterDevices s = [first_node cfg (cluster_count cfg) ..<
          first_node cfg (cluster_count cfg) + cluster_count cfg]"
    and run_cluster: "\<And>j a. j < cluster_count cfg \<Longrightarrow> a < unat (infraNodes cfg ! j) \<Longrightarrow>
       devices s ! (first_node cfg j + a) = (first_node cfg j + a, j) \<and> a < 254 \<and>
       addresses s ! (first_node cfg j + a) =
         (first_node cfg j + a, pool_base j OR (1 + of_nat a), ipv4 255 255 255 0) \<and>
       first_node cfg j + a < first_node cfg (cluster_count cfg)"
    and run_backbone: "\<And>j. j < cluster_count cfg \<Longrightarrow>
       devices s ! (first_node cfg (cluster_count cfg) + j) = (head_cluster s ! j, cluster_count cfg) \<and>
       addresses s ! (first_node cfg (cluster_count cfg) + j) =
         (first_node cfg (cluster_count cfg) + j, ipv4 172 16 0 0 OR (1 + of_nat j),
          ipv4 255 255 255 0) \<and>
       head_cluster s ! j = first_node cfg j + nat (draw cfg uni g j) \<and>
       nat (draw cfg uni g j) < unat (infraNodes cfg ! j)"
    and run_device_node: "\<And>d. d < first_node cfg (cluster_count cfg) \<Longrightarrow>
       fst (devices s ! d) = d \<and> fst (addresses s ! d) = d"
proof -
  define k where "k = cluster_count cfg"
  define N where "N = first_node cfg k"
  from main_body_Exited[OF run] obtain s2 h' where
    asm0: "assembled cfg uni g (cluster_count cfg) s2"
    and s0: "s = s2\<lparr>channels := channels s2 @ [CsmaChannel],
              devices := devices s2 @ map (\<lambda>v. (v, cluster_count cfg)) (head_cluster s2),
              addresses := addresses s2 @
                map (\<lambda>j. (first_node cfg (cluster_count cfg) + j,
                          ipv4 172 16 0 0 OR (1 + of_nat j), ipv4 255 255 255 0))
                  [0 ..< cluster_count cfg],
              ipAddrsH := Some h',
              head_clusterDevices :=
                [first_node cfg (cluster_count cfg) ..<
                 first_node cfg (cluster_count cfg) + cluster_count cfg],
              anim_files := [''taller.xml''],
              stop_at := Some (unat (stopTime cfg)),
              run_done := True,
              destroyed := True\<rparr>"
    apply (elim exE conjE)
    apply (rule that; assumption)
    done
  note asm = asm0[folded k_def] and s = s0[folded k_def, folded N_def]
  from asm have nodes: "inv_nodes cfg k s2" and addr: "inv_addr cfg k s2"
    and hd: "inv_head cfg uni g k s2"
    by (simp_all add: assembled_def)
  have kl: "k \<le> length (infraNodes cfg)" and k3: "k \<le> 3"
    using nodes addr by (simp_all add: inv_nodes_def inv_addr_def)
  have ld: "length (devices s2) = N" and la: "length (addresses s2) = N"
    and lh: "length (head_cluster s2) = k"
    using nodes addr hd by (simp_all add: inv_nodes_def inv_addr_def inv_head_def N_def)
  show "cluster_count cfg \<le> length (infraNodes cfg) \<and> cluster_count cfg \<le> 3"
    using kl k3 by (simp add: k_def)
  show "node_count s = first_node cfg (cluster_count cfg) \<and>
      length (devices s) = first_node cfg (cluster_count cfg) + cluster_count cfg \<and>
      length (addresses s) = first_node cfg (cluster_count cfg) + cluster_count cfg \<and>
      length (head_cluster s) = cluster_count cfg \<and> distinct (head_cluster s)"
    using nodes head_distinct[OF nodes hd] ld la lh
    by (simp add: s inv_nodes_def k_def[symmetric] N_def[symmetric])
  show "channels s = replicate (cluster_count cfg) YansWifiChannel @ [CsmaChannel]"
    using nodes by (simp add: s inv_nodes_def k_def[symmetric])
  show "clusters s = map (\<lambda>j. [first_node cfg j ..< first_node cfg (Suc j)]) [0 ..< cluster_count cfg] \<and>
       clusterDevices s = clusters s \<and>
       head_clusterDevices s = [first_node cfg (cluster_count cfg) ..<
          first_node cfg (cluster_count cfg) + cluster_count cfg]"
    using nodes by (simp add: s inv_nodes_def k_def[symmetric] N_def[symmetric])
  show "devices s ! (first_node cfg j + a) = (first_node cfg j + a, j) \<and> a < 254 \<and>
       addresses s ! (first_node cfg j + a) =
         (first_node cfg j + a, pool_base j OR (1 + of_nat a), ipv4 255 255 255 0) \<and>
       first_node cfg j + a < first_node cfg (cluster_count cfg)"
    if "j < cluster_count cfg" "a < unat (infraNodes cfg ! j)" for j a
  proof -
    from that have jk: "j < k" by (simp add: k_def)
    have b: "first_node cfg j + a < N"
      unfolding N_def using jk kl that(2) by (rule first_node_bound)
    from nodes jk that(2) have "devices s2 ! (first_node cfg j + a) = (first_node cfg j + a, j)"
      unfolding inv_nodes_def by blast
    moreover from addr jk that(2) have "a < 254 \<and> addresses s2 ! (first_node cfg j + a) =
         (first_node cfg j + a, pool_base j OR (1 + of_nat a), ipv4 255 255 255 0)"
      unfolding inv_addr_def by blast
    ultimately show ?thesis using b ld la
      by (simp add: s nth_append k_def[symmetric] N_def[symmetric])
  qed
  show "devices s ! (first_node cfg (cluster_count cfg) + j) = (head_cluster s ! j, cluster_count cfg) \<and>
       addresses s ! (first_node cfg (cluster_count cfg) + j) =
         (first_node cfg (cluster_count cfg) + j, ipv4 172 16 0 0 OR (1 + of_nat j),
          ipv4 255 255 255 0) \<and>
       head_cluster s ! j = first_node cfg j + nat (draw cfg uni g j) \<and>
       nat (draw cfg uni g j) < unat (infraNodes cfg ! j)"
    if "j < cluster_count cfg" for j
  proof -
    from that have jk: "j < k" by (simp add: k_def)
    from hd jk have "head_cluster s2 ! j = first_node cfg j + nat (draw cfg uni g j)"
      "nat (draw cfg uni g j) < unat (infraNodes cfg ! j)"
      unfolding inv_head_def by blast+
    then show ?thesis using jk ld la lh
      by (simp add: s nth_append k_def[symmetric] N_def[symmetric])
  qed
  show "fst (devices s ! d) = d \<and> fst (addresses s ! d) = d"
    if "d < first_node cfg (cluster_count cfg)" for d
  proof -
    from that have dN: "d < first_node cfg k" by (simp add: k_def)
    from device_of_node[OF nodes dN] obtain j a where
      ja: "j < k" "a < unat (infraNodes cfg ! j)" "d = first_node cfg j + a"
      and dv: "devices s2 ! d = (d, j)" by blast
    from addr ja have "addresses s2 ! d = (d, pool_base j OR (1 + of_nat a), ipv4 255 255 255 0)"
      unfolding inv_addr_def by blast
    with dv dN ld la show ?thesis
      by (simp add: s nth_append N_def)
  qed
qed

lemma run_interfaces:
  assumes run: "main_body cfg uni g = (Exited 0, s)" and v: "v < node_count s"
  shows "interfaces s v =
      v # map (\<lambda>j. first_node cfg (cluster_count cfg) + j)
            (filter (\<lambda>j. head_cluster s ! j = v) [0 ..< cluster_count cfg])"
proof -
  define k where "k = cluster_count cfg"
  define N where "N = first_node cfg k"
  note sz = run_sizes[OF run, folded k_def, folded N_def]
  from sz v have vN: "v < N" and ld: "length (devices s) = N + k" by simp_all
  have a: "filter (\<lambda>d. fst (devices s ! d) = v) [0 ..< N] = filter (\<lambda>d. d = v) [0 ..< N]"
  proof (rule filter_cong[OF refl])
    fix d assume "d \<in> set [0 ..< N]"
    then have "d < first_node cfg (cluster_count cfg)" by (simp add: N_def k_def)
    from run_device_node[OF run this] show "(fst (devices s ! d) = v) = (d = v)" by simp
  qed
  have b: "filter (\<lambda>j. fst (devices s ! (N + j)) = v) [0 ..< k] =
           filter (\<lambda>j. head_cluster s ! j = v) [0 ..< k]"
  proof (rule filter_cong[OF refl])
    fix j assume "j \<in> set [0 ..< k]"
    then have "j < cluster_count cfg" by (simp add: k_def)
    from run_backbone[OF run this]
    show "(fst (devices s ! (N + j)) = v) = (head_cluster s ! j = v)"
      by (simp add: N_def k_def)
  qed
  have "interfaces s v = filter (\<lambda>d. fst (devices s ! d) = v) ([0 ..< N] @ [N ..< N + k])"
    using upt_add_eq_append[of 0 N k] by (simp add: interfaces_def ld)
  also have "\<dots> = filter (\<lambda>d. fst (devices s ! d) = v) [0 ..< N] @
      filter (\<lambda>d. fst (devices s ! d) = v) (map (\<lambda>j. N + j) [0 ..< k])"
    by (simp only: filter_append upt_shift[of N k])
  also have "filter (\<lambda>d. fst (devices s ! d) = v) (map (\<lambda>j. N + j) [0 ..< k]) =
      map (\<lambda>j. N + j) (filter (\<lambda>j. fst (devices s ! (N + j)) = v) [0 ..< k])"
    by (simp add: filter_map comp_def)
  finally have "interfaces s v =
      v # map (\<lambda>j. N + j) (filter (\<lambda>j. head_cluster s ! j = v) [0 ..< k])"
    using vN by (simp add: a b filter_upt_eq)
  then show ?thesis by (simp add: N_def k_def)
qed

lemma run_node_addresses:
  assumes run: "main_body cfg uni g = (Exited 0, s)"
  shows "node_addresses s v = map (\<lambda>d. addresses s ! d) (interfaces s v)"
proof -
  define k where "k = cluster_count cfg"
  define N where "N = first_node cfg k"
  note sz = run_sizes[OF run, folded k_def, folded N_def]
  from sz have la: "length (addresses s) = N + k" and ld: "length (devices s) = N + k"
    by simp_all
  have own: "fst (addresses s ! d) = d" if "d < N + k" for d
  proof (cases "d < N")
    case True
    then have "d < first_node cfg (cluster_count cfg)" by (simp add: N_def k_def)
    from run_device_node[OF run this] show ?thesis by simp
  next
    case False
    define j where "j = d - N"
    from False that have j: "j < cluster_count cfg" and d: "d = N + j"
      by (simp_all add: j_def k_def)
    from run_backbone[OF run j] show ?thesis by (simp add: d N_def k_def)
  qed
  have "addresses s = map (\<lambda>d. addresses s ! d) [0 ..< N + k]"
    using map_nth[of "addresses s"] by (simp add: la)
  then have "node_addresses s v =
      filter (\<lambda>e. fst (devices s ! fst e) = v) (map (\<lambda>d. addresses s ! d) [0 ..< N + k])"
    by (simp add: node_addresses_def)
  also have "\<dots> = map (\<lambda>d. addresses s ! d)
      (filter (\<lambda>d. fst (devices s ! fst (addresses s ! d)) = v) [0 ..< N + k])"
    by (simp add: filter_map comp_def)
  also have "filter (\<lambda>d. fst (devices s ! fst (addresses s ! d)) = v) [0 ..< N + k] =
      filter (\<lambda>d. fst (devices s ! d) = v) [0 ..< N + k]"
    by (rule filter_cong[OF refl]) (simp add: own)
  finally show ?thesis by (simp add: interfaces_def ld)
qed

lemma run_head_filter:
  assumes run: "main_body cfg uni g = (Exited 0, s)"
  shows "i < cluster_count cfg \<Longrightarrow>
           filter (\<lambda>j. head_cluster s ! j = head_cluster s ! i) [0 ..< cluster_count cfg] = [i]"
    and "v \<notin> set (head_cluster s) \<Longrightarrow>
           filter (\<lambda>j. head_cluster s ! j = v) [0 ..< cluster_count cfg] = []"
proof -
  from run_sizes[OF run] have l: "length (head_cluster s) = cluster_count cfg"
    and d: "distinct (head_cluster s)" by simp_all
  show "filter (\<lambda>j. head_cluster s ! j = head_cluster s ! i) [0 ..< cluster_count cfg] = [i]"
    if "i < cluster_count cfg"
    using filter_nth_distinct[OF d, of i] that l by simp
  show "filter (\<lambda>j. head_cluster s ! j = v) [0 ..< cluster_count cfg] = []"
    if "v \<notin> set (head_cluster s)"
    using filter_nth_notin[OF that] l by simp
qed

lemma host_number_le:
  assumes "a < 255"
  shows "(1 + of_nat a :: 32 word) \<le> 255"
proof -
  have "unat (of_nat a :: 32 word) = a"
    using assms by (simp add: unat_of_nat)
  then have "unat (1 + of_nat a :: 32 word) = 1 + a"
    using assms by (simp add: unat_word_ariths)
  then show ?thesis using assms by (simp add: word_le_nat_alt)
qed

lemma cluster_address_in_subnet:
  assumes "j < 3" "a < 254"
  shows "(pool_base j OR (1 + of_nat a)) AND ipv4 255 255 255 0 = pool_base j"
proof -
  have "a < 255" using assms(2) by simp
  from network_or_host[OF pool_base_aligned[OF assms(1)] host_number_le[OF this]]
  show ?thesis by (simp add: mask24)
qed

lemma backbone_address_in_subnet:
  assumes "a < 254"
  shows "(ipv4 172 16 0 0 OR (1 + of_nat a)) AND ipv4 255 255 255 0 = ipv4 172 16 0 0"
proof -
  have "a < 255" using assms by simp
  from network_or_host[OF backbone_aligned host_number_le[OF this]]
  show ?thesis by (simp add: mask24)
qed

lemma overlap_same_mask: "overlap (n1, m) (n2, m) \<Longrightarrow> n1 = n2"
  by (auto simp: overlap_def subnet_addrs_def in_subnet_def)

lemma run_cluster_nth:
  assumes run: "main_body cfg uni g = (Exited 0, s)" and i: "i < cluster_count cfg"
  shows "clusters s ! i = [first_node cfg i ..< first_node cfg i + unat (infraNodes cfg ! i)]"
    and "clusterDevices s ! i = [first_node cfg i ..< first_node cfg i + unat (infraNodes cfg ! i)]"
proof -
  from run_count[OF run] i have il: "i < length (infraNodes cfg)" by simp
  from run_containers[OF run]
  have c: "clusters s = map (\<lambda>j. [first_node cfg j ..< first_node cfg (Suc j)]) [0 ..< cluster_count cfg]"
    and cd: "clusterDevices s = clusters s"
    by simp_all
  have "clusters s ! i =
      map (\<lambda>j. [first_node cfg j ..< first_node cfg (Suc j)]) [0 ..< cluster_count cfg] ! i"
    by (simp only: c)
  also have "\<dots> = [first_node cfg i ..< first_node cfg (Suc i)]"
    using i by (simp only: nth_map_upt[of i "cluster_count cfg" 0] minus_nat.diff_0 add_0)
  finally show "clusters s ! i = [first_node cfg i ..< first_node cfg i + unat (infraNodes cfg ! i)]"
    by (simp add: first_node_Suc[OF il])
  then show "clusterDevices s ! i = [first_node cfg i ..< first_node cfg i + unat (infraNodes cfg ! i)]"
    by (simp add: cd)
qed

lemma run_head:
  assumes run: "main_body cfg uni g = (Exited 0, s)" and i: "i < cluster_count cfg"
  shows "head_cluster s ! i \<in> set (clusters s ! i)"
    and "head_cluster s ! i < node_count s"
    and "v \<in> set (clusters s ! i) \<Longrightarrow> v \<in> set (head_cluster s) \<Longrightarrow> v = head_cluster s ! i"
proof -
  from run_count[OF run] have kl: "cluster_count cfg \<le> length (infraNodes cfg)" by simp
  from run_backbone[OF run i]
  have h: "head_cluster s ! i = first_node cfg i + nat (draw cfg uni g i)"
    and r: "nat (draw cfg uni g i) < unat (infraNodes cfg ! i)" by simp_all
  show "head_cluster s ! i \<in> set (clusters s ! i)"
    using h r by (simp add: run_cluster_nth[OF run i])
  from run_cluster[OF run i r] run_sizes[OF run] h
  show "head_cluster s ! i < node_count s" by simp
  show "v = head_cluster s ! i" if vc: "v \<in> set (clusters s ! i)" and vh: "v \<in> set (head_cluster s)"
  proof -
    from vh run_sizes[OF run] obtain j where j: "j < cluster_count cfg" and vj: "v = head_cluster s ! j"
      by (auto simp: in_set_conv_nth)
    from run_backbone[OF run j]
    have hj: "head_cluster s ! j = first_node cfg j + nat (draw cfg uni g j)"
      and rj: "nat (draw cfg uni g j) < unat (infraNodes cfg ! j)" by simp_all
    define a where "a = v - first_node cfg i"
    from vc have va: "v = first_node cfg i + a" and a: "a < unat (infraNodes cfg ! i)"
      by (auto simp: run_cluster_nth[OF run i] a_def)
    from vj hj va have "first_node cfg i + a = first_node cfg j + nat (draw cfg uni g j)"
      by simp
    from node_cluster_unique[OF this a rj] i j kl have "i = j" by simp
    with vj show ?thesis by simp
  qed
qed

lemma run_address_device:
  assumes run: "main_body cfg uni g = (Exited 0, s)" and d: "d < length (addresses s)"
  shows "fst (addresses s ! d) = d"
proof (cases "d < first_node cfg (cluster_count cfg)")
  case True
  from run_device_node[OF run this] show ?thesis by simp
next
  case False
  define j where "j = d - first_node cfg (cluster_count cfg)"
  from False d run_sizes[OF run] have j: "j < cluster_count cfg"
    and dj: "d = first_node cfg (cluster_count cfg) + j"
    by (simp_all add: j_def)
  from run_backbone[OF run j] show ?thesis by (simp add: dj)
qed

lemma run_cluster_subnets:
  assumes run: "main_body cfg uni g = (Exited 0, s)" and i: "i < cluster_count cfg"
  shows "container_subnets s (clusterDevices s ! i) = {(pool_base i, ipv4 255 255 255 0)}"
proof -
  from run_count[OF run] i have i3: "i < 3" by simp
  note cd = run_cluster_nth(2)[OF run i]
  have sub: "x = (pool_base i, ipv4 255 255 255 0)"
    if "x \<in> container_subnets s (clusterDevices s ! i)" for x
  proof -
    from that obtain e where e: "e \<in> set (addresses s)" and fe: "fst e \<in> set (clusterDevices s ! i)"
      and x: "x = subnet_of e"
      by (auto simp: container_subnets_def)
    from e obtain d where d: "d < length (addresses s)" and ed: "e = addresses s ! d"
      by (auto simp: in_set_conv_nth)
    from run_address_device[OF run d] fe ed have dc: "d \<in> set (clusterDevices s ! i)" by simp
    define a where "a = d - first_node cfg i"
    from dc have da: "d = first_node cfg i + a" and a: "a < unat (infraNodes cfg ! i)"
      by (auto simp: cd a_def)
    from run_cluster[OF run i a] have a254: "a < 254"
      and "e = (d, pool_base i OR (1 + of_nat a), ipv4 255 255 255 0)"
      by (simp_all add: ed da)
    then show ?thesis
      by (simp add: x subnet_of_def cluster_address_in_subnet[OF i3 a254])
  qed
  have mem: "(pool_base i, ipv4 255 255 255 0) \<in> container_subnets s (clusterDevices s ! i)"
  proof -
    from run_backbone[OF run i] have pos: "0 < unat (infraNodes cfg ! i)" by simp
    from run_cluster[OF run i pos]
    have av: "addresses s ! first_node cfg i =
        (first_node cfg i, pool_base i OR (1 + of_nat 0), ipv4 255 255 255 0)"
      and lt: "first_node cfg i < first_node cfg (cluster_count cfg)"
      by simp_all
    from lt run_sizes[OF run] have "first_node cfg i < length (addresses s)" by simp
    then have "addresses s ! first_node cfg i \<in> set (addresses s)" by (rule nth_mem)
    moreover have "fst (addresses s ! first_node cfg i) \<in> set (clusterDevices s ! i)"
      using pos by (simp add: av cd)
    moreover have "subnet_of (addresses s ! first_node cfg i) = (pool_base i, ipv4 255 255 255 0)"
      using cluster_address_in_subnet[OF i3, of 0] by (simp add: av subnet_of_def)
    ultimately show ?thesis
      unfolding container_subnets_def by (metis (mono_tags, lifting) image_eqI list.set_map mem_Collect_eq set_filter)
  qed
  from sub mem show ?thesis by blast
qed

lemma run_backbone_subnets:
  assumes run: "main_body cfg uni g = (Exited 0, s)"
  shows "container_subnets s (head_clusterDevices s) \<subseteq> {(ipv4 172 16 0 0, ipv4 255 255 255 0)}"
    and "0 < cluster_count cfg \<Longrightarrow>
      (ipv4 172 16 0 0, ipv4 255 255 255 0) \<in> container_subnets s (head_clusterDevices s)"
proof -
  define N where "N = first_node cfg (cluster_count cfg)"
  from run_containers[OF run]
  have hcd: "head_clusterDevices s = [N ..< N + cluster_count cfg]" by (simp add: N_def)
  from run_count[OF run] have k3: "cluster_count cfg \<le> 3" by simp
  show "container_subnets s (head_clusterDevices s) \<subseteq> {(ipv4 172 16 0 0, ipv4 255 255 255 0)}"
  proof
    fix x assume "x \<in> container_subnets s (head_clusterDevices s)"
    then obtain e where e: "e \<in> set (addresses s)" and fe: "fst e \<in> set (head_clusterDevices s)"
      and x: "x = subnet_of e"
      by (auto simp: container_subnets_def)
    from e obtain d where d: "d < length (addresses s)" and ed: "e = addresses s ! d"
      by (auto simp: in_set_conv_nth)
    from run_address_device[OF run d] fe ed have dc: "d \<in> set (head_clusterDevices s)" by simp
    define j where "j = d - N"
    from dc have dj: "d = N + j" and j: "j < cluster_count cfg"
      by (auto simp: hcd j_def)
    from j k3 have j254: "j < 254" by simp
    from run_backbone[OF run j]
    have "e = (d, ipv4 172 16 0 0 OR (1 + of_nat j), ipv4 255 255 255 0)"
      by (simp add: ed dj N_def)
    then have "x = (ipv4 172 16 0 0, ipv4 255 255 255 0)"
      by (simp add: x subnet_of_def backbone_address_in_subnet[OF j254])
    then show "x \<in> {(ipv4 172 16 0 0, ipv4 255 255 255 0)}" by simp
  qed
  show "(ipv4 172 16 0 0, ipv4 255 255 255 0) \<in> container_subnets s (head_clusterDevices s)"
    if pos: "0 < cluster_count cfg"
  proof -
    from run_backbone[OF run pos]
    have av: "addresses s ! N = (N, ipv4 172 16 0 0 OR (1 + of_nat 0), ipv4 255 255 255 0)"
      by (simp add: N_def)
    from pos run_sizes[OF run] have "N < length (addresses s)" by (simp add: N_def)
    then have "addresses s ! N \<in> set (addresses s)" by (rule nth_mem)
    moreover have "fst (addresses s ! N) \<in> set (head_clusterDevices s)"
      using pos by (simp add: av hcd)
    moreover have "subnet_of (addresses s ! N) = (ipv4 172 16 0 0, ipv4 255 255 255 0)"
      using backbone_address_in_subnet[of 0] by (simp add: av subnet_of_def)
    ultimately show ?thesis
      unfolding container_subnets_def by (metis (mono_tags, lifting) image_eqI list.set_map mem_Collect_eq set_filter)
  qed
qed

subsection \<open>The blocks of one pool\<close>

lemma NewNetwork_above:
  assumes "m_mask h = 0xFFFFFF00" "NewNetwork h = Inr h'"
  shows "m_network h < m_network h' \<and> m_mask h' = 0xFFFFFF00"
proof -
  from assms have room: "uint (m_network h) + 256 < 2 ^ 32"
    and h': "h' = h\<lparr>m_network := m_network h + 256, m_address := m_base h\<rparr>"
    by (auto simp: NewNetwork_24 split: if_splits)
  have "uint (m_network h + 256) = (uint (m_network h) + 256) mod 2 ^ 32"
    by (simp add: uint_word_ariths)
  also have "\<dots> = uint (m_network h) + 256"
    using room by simp
  finally have "m_network h < m_network h + 256"
    by (simp add: word_less_def)
  with assms(1) show ?thesis by (simp add: h')
qed

lemma issue_blocks:
  assumes "m_mask h = 0xFFFFFF00" "issue n h = Inr bs"
  shows "length bs = n \<and> (\<forall>x\<in>set bs. m_network h \<le> fst x \<and> snd x = 0xFFFFFF00) \<and>
         (\<forall>a b. a < b \<and> b < n \<longrightarrow> fst (bs ! a) < fst (bs ! b))"
  using assms
proof (induction n arbitrary: h bs)
  case 0
  then show ?case by simp
next
  case (Suc n)
  from Suc.prems(2) obtain h' bs' where nn: "NewNetwork h = Inr h'"
    and iss': "issue n h' = Inr bs'" and bs: "bs = current_subnet h # bs'"
    by (auto split: sum.splits)
  from NewNetwork_above[OF Suc.prems(1) nn]
  have up: "m_network h < m_network h'" and mk: "m_mask h' = 0xFFFFFF00" by simp_all
  from Suc.IH[OF mk iss']
  have len: "length bs' = n" and lo: "\<And>x. x \<in> set bs' \<Longrightarrow> m_network h' \<le> fst x \<and> snd x = 0xFFFFFF00"
    and inc: "\<And>a b. a < b \<Longrightarrow> b < n \<Longrightarrow> fst (bs' ! a) < fst (bs' ! b)"
    by blast+
  have "length bs = Suc n" by (simp add: bs len)
  moreover have "\<forall>x\<in>set bs. m_network h \<le> fst x \<and> snd x = 0xFFFFFF00"
  proof
    fix x assume "x \<in> set bs"
    then consider "x = current_subnet h" | "x \<in> set bs'" by (auto simp: bs)
    then show "m_network h \<le> fst x \<and> snd x = 0xFFFFFF00"
    proof cases
      case 1
      then show ?thesis by (simp add: current_subnet_def Suc.prems(1))
    next
      case 2
      from lo[OF this] up show ?thesis by auto
    qed
  qed
  moreover have "\<forall>a b. a < b \<and> b < Suc n \<longrightarrow> fst (bs ! a) < fst (bs ! b)"
  proof (intro allI impI)
    fix a b assume ab: "a < b \<and> b < Suc n"
    then obtain b' where b': "b = Suc b'" "b' < n" by (cases b) simp_all
    show "fst (bs ! a) < fst (bs ! b)"
    proof (cases a)
      case 0
      from b' len have "bs' ! b' \<in> set bs'" by simp
      from lo[OF this] up have "m_network h < fst (bs' ! b')" by auto
      then show ?thesis by (simp add: bs 0 b' current_subnet_def)
    next
      case (Suc a')
      with ab b' have "a' < b'" by simp
      from inc[OF this b'(2)] show ?thesis by (simp add: bs Suc b')
    qed
  qed
  ultimately show ?case by blast
qed

lemma issue_example:
  "issue (Suc (Suc 0)) (SetBase (ipv4 192 167 0 0) (ipv4 255 255 255 0)) =
     Inr [(ipv4 192 167 0 0, ipv4 255 255 255 0), (ipv4 192 167 1 0, ipv4 255 255 255 0)]"
proof -
  define h0 where "h0 = SetBase (ipv4 192 167 0 0) (ipv4 255 255 255 0)"
  define h1 where "h1 = h0\<lparr>m_network := m_network h0 + 256, m_address := m_base h0\<rparr>"
  define h2 where "h2 = h1\<lparr>m_network := m_network h1 + 256, m_address := m_base h1\<rparr>"
  have m0: "m_mask h0 = 0xFFFFFF00" by (simp add: h0_def SetBase_def mask24)
  then have m1: "m_mask h1 = 0xFFFFFF00" by (simp add: h1_def)
  have n0: "NewNetwork h0 = Inr h1"
    by (simp add: NewNetwork_24[OF m0] h1_def) (simp add: h0_def SetBase_def ipv4_def)
  have n1: "NewNetwork h1 = Inr h2"
    by (simp add: NewNetwork_24[OF m1] h2_def) (simp add: h1_def h0_def SetBase_def ipv4_def)
  have "issue (Suc (Suc 0)) h0 = Inr [current_subnet h0, current_subnet h1]"
    by (simp add: n0 n1)
  then show ?thesis
    unfolding h0_def[symmetric]
    by (simp add: current_subnet_def h1_def) (simp add: h0_def SetBase_def ipv4_def)
qed

subsection \<open>The engine, the backbone devices and the reference configuration\<close>

lemma run_engine:
  assumes run: "main_body cfg uni g = (Exited 0, s)"
  shows "stop_at s = Some (unat (stopTime cfg)) \<and> run_done s \<and> destroyed s \<and> cout s = [] \<and>
         anim_files s = [''taller.xml'']"
proof -
  from main_body_Exited[OF run] obtain s2 where
    asm: "assembled cfg uni g (cluster_count cfg) s2"
    and f: "stop_at s = Some (unat (stopTime cfg))" "run_done s" "destroyed s"
      "cout s = cout s2" "anim_files s = [''taller.xml'']"
    by auto
  from asm have "cout s2 = []" by (simp add: assembled_def inv_idle_def)
  with f show ?thesis by simp
qed

lemma run_backbone_devices:
  assumes run: "main_body cfg uni g = (Exited 0, s)"
  shows "map fst (filter (\<lambda>d. snd d = cluster_count cfg) (devices s)) = head_cluster s"
proof -
  define k where "k = cluster_count cfg"
  define N where "N = first_node cfg k"
  note sz = run_sizes[OF run, folded k_def, folded N_def]
  note cnt = run_count[OF run, folded k_def]
  from sz have ld: "length (devices s) = N + k" and lh: "length (head_cluster s) = k" by simp_all
  have low: "snd (devices s ! d) \<noteq> k" if "d < N" for d
  proof -
    from that have dn: "d < first_node cfg k" by (simp add: N_def)
    from node_cluster_exists[OF dn] cnt obtain j a where
      ja: "j < k" "a < unat (infraNodes cfg ! j)" "d = first_node cfg j + a" by blast
    from ja(1) have jc: "j < cluster_count cfg" by (simp add: k_def)
    from run_cluster[OF run jc ja(2)] have "devices s ! d = (d, j)" by (simp add: ja(3))
    with ja(1) show ?thesis by simp
  qed
  have high: "devices s ! (N + j) = (head_cluster s ! j, k)" if "j < k" for j
  proof -
    from that have jc: "j < cluster_count cfg" by (simp add: k_def)
    from run_backbone[OF run jc] show ?thesis by (simp add: N_def k_def)
  qed
  have idx: "[0 ..< N + k] = [0 ..< N] @ map (\<lambda>j. N + j) [0 ..< k]"
    using upt_add_eq_append[of 0 N k] by (simp only: upt_shift[of N k] le0)
  have "map (\<lambda>d. devices s ! d) [0 ..< N + k] = devices s"
    using map_nth[of "devices s"] by (simp only: ld)
  then have dv: "devices s = map (\<lambda>d. devices s ! d) [0 ..< N] @
      map (\<lambda>j. devices s ! (N + j)) [0 ..< k]"
    by (simp only: idx map_append map_map comp_def)
  have lo: "filter (\<lambda>d. snd d = k) (map (\<lambda>d. devices s ! d) [0 ..< N]) = []"
    by (simp add: filter_empty_conv low)
  have hi: "map (\<lambda>j. devices s ! (N + j)) [0 ..< k] = map (\<lambda>j. (head_cluster s ! j, k)) [0 ..< k]"
    by (rule map_cong[OF refl]) (simp add: high)
  have "filter (\<lambda>d. snd d = k) (devices s) =
      filter (\<lambda>d. snd d = k) (map (\<lambda>d. devices s ! d) [0 ..< N]) @
      filter (\<lambda>d. snd d = k) (map (\<lambda>j. devices s ! (N + j)) [0 ..< k])"
    by (subst dv) (simp only: filter_append)
  also have "\<dots> = map (\<lambda>j. (head_cluster s ! j, k)) [0 ..< k]"
  proof -
    have "filter (\<lambda>d. snd d = k) (map (\<lambda>j. (head_cluster s ! j, k)) [0 ..< k]) =
        map (\<lambda>j. (head_cluster s ! j, k)) [0 ..< k]"
      by (simp add: filter_map comp_def)
    then show ?thesis by (simp only: lo hi append_Nil)
  qed
  finally have "map fst (filter (\<lambda>d. snd d = k) (devices s)) =
      map (\<lambda>j. head_cluster s ! j) [0 ..< k]"
    by (simp add: comp_def)
  also have "\<dots> = head_cluster s"
    using map_nth[of "head_cluster s"] by (simp only: lh)
  finally show ?thesis by (simp add: k_def)
qed

lemma shipped_first_node:
  "first_node shipped 0 = 0" "first_node shipped (Suc 0) = 4" "first_node shipped 2 = 7"
  by (simp_all add: first_node_def shipped_def)

lemma upt_0_2: "[0 ..< 2] = [0, Suc 0]"
  by (simp add: upt_rec)

lemma upt_0_4: "[0 ..< 4] = [0, Suc 0, 2, 3]"
  by (simp add: upt_rec)

lemma upt_4_7: "[4 ..< 7] = [4, 5, 6]"
  by (simp add: upt_rec)

subsection \<open>A cluster of size 0\<close>

lemma select_head_empty:
  assumes il: "i < length (infraNodes cfg)" and lc: "i < length (clusters s)"
    and z: "infraNodes cfg ! i = 0"
  shows "select_head cfg uni i s = Inl (Undefined, s)"
proof -
  have "sint (infraNodes cfg ! i - 1) < 0" by (simp add: z)
  with il lc show ?thesis by (simp add: select_head_def Let_def)
qed

lemma zero_size_run:
  assumes ib: "in_bounds uni" and st: "\<not> stopTime cfg < 10"
    and k3: "cluster_count cfg \<le> 3" and kl: "cluster_count cfg \<le> length (infraNodes cfg)"
    and j: "j < cluster_count cfg" and z: "infraNodes cfg ! j = 0"
    and pre: "\<And>i. i < j \<Longrightarrow> 1 \<le> infraNodes cfg ! i \<and> infraNodes cfg ! i \<le> 254"
  shows "\<exists>s. main_body cfg uni g = (Undefined, s) \<and> cout s = [] \<and> \<not> run_done s \<and>
           channels s = replicate (Suc j) YansWifiChannel \<and>
           node_count s = first_node cfg j \<and>
           length (clusters s) = Suc j \<and> clusters s ! j = [] \<and>
           length (head_cluster s) = j"
proof -
  define k where "k = cluster_count cfg"
  have jl: "j < length (infraNodes cfg)" and j3: "j < 3" using j k3 kl by simp_all
  have "\<exists>t. for_loop [0 ..< j] (loop_body cfg uni) (at_loop_entry g) = Inr t"
  proof (rule for_loop_upt_total[where P = "assembled cfg uni g"])
    show "assembled cfg uni g 0 (at_loop_entry g)"
      unfolding at_loop_entry_def by (rule assembled_initial)
    show "assembled cfg uni g (Suc i) t'"
      if "assembled cfg uni g i t" "loop_body cfg uni i t = Inr t'" for i t t'
      using that by (rule loop_body_step)
    show "\<exists>t'. loop_body cfg uni i t = Inr t'"
      if i: "i < j" and a: "assembled cfg uni g i t" for i t
    proof -
      from i jl j3 have il: "i < length (infraNodes cfg)" and i3: "i < 3" by simp_all
      from pre[OF i] have sz: "1 \<le> infraNodes cfg ! i" "infraNodes cfg ! i \<le> 254" by simp_all
      from a have nodes: "inv_nodes cfg i t" and addr: "inv_addr cfg i t"
        and pos: "inv_pos cfg i t"
        by (simp_all add: assembled_def)
      from build_cluster_total[OF nodes addr il i3 sz(2)] obtain s1 where
        b1: "build_cluster cfg i t = Inr s1" by blast
      from build_cluster_step[OF nodes addr pos b1] have "inv_nodes cfg (Suc i) s1" by simp
      from select_head_total[OF this ib sz] obtain s' where "select_head cfg uni i s1 = Inr s'"
        by blast
      with b1 show ?thesis by (simp add: loop_body_def)
    qed
  qed
  then obtain t where l: "for_loop [0 ..< j] (loop_body cfg uni) (at_loop_entry g) = Inr t"
    by blast
  have a: "assembled cfg uni g j t" using l by (rule loop_assembled')
  then have nodes: "inv_nodes cfg j t" and addr: "inv_addr cfg j t" and pos: "inv_pos cfg j t"
    and hd: "inv_head cfg uni g j t" and idle: "inv_idle t"
    by (simp_all add: assembled_def)
  have z254: "infraNodes cfg ! j \<le> 254" by (simp add: z)
  from build_cluster_total[OF nodes addr jl j3 z254] obtain s1 where
    b1: "build_cluster cfg j t = Inr s1" by blast
  from build_cluster_step[OF nodes addr pos b1] idle
  have n1: "inv_nodes cfg (Suc j) s1" and h1: "head_cluster s1 = head_cluster t"
    and i1: "inv_idle s1"
    by simp_all
  have cs: "clusters s1 = map (\<lambda>i. [first_node cfg i ..< first_node cfg (Suc i)]) [0 ..< Suc j]"
    and ch: "channels s1 = replicate (Suc j) YansWifiChannel"
    and nc: "node_count s1 = first_node cfg (Suc j)"
    using n1 by (simp_all add: inv_nodes_def)
  have lc: "length (clusters s1) = Suc j" by (simp add: cs)
  then have lc': "j < length (clusters s1)" by simp
  have fs: "first_node cfg (Suc j) = first_node cfg j"
    by (simp add: first_node_Suc[OF jl] z)
  have "clusters s1 ! j = [first_node cfg j ..< first_node cfg (Suc j)]"
    by (rule cluster_nth[OF n1 lessI])
  then have ce: "clusters s1 ! j = []" by (simp add: fs)
  have b2: "select_head cfg uni j s1 = Inl (Undefined, s1)"
    by (rule select_head_empty[OF jl lc' z])
  have lb: "loop_body cfg uni j t = Inl (Undefined, s1)"
    by (simp add: loop_body_def b1 b2)
  have sp: "[0 ..< cluster_count cfg] = [0 ..< j] @ j # [Suc j ..< cluster_count cfg]"
    using j upt_add_eq_append[of 0 j "cluster_count cfg - j"]
    by (simp add: upt_conv_Cons)
  have fl: "for_loop [0 ..< cluster_count cfg] (loop_body cfg uni) (at_loop_entry g) =
      Inl (Undefined, s1)"
    by (simp only: sp for_loop_append l sum.case for_loop.simps lb)
  have m: "main_body cfg uni g = (Undefined, s1)"
    by (simp add: main_body_unfold[OF st] fl)
  have c0: "cout s1 = []" and nr: "\<not> run_done s1" using i1 by (simp_all add: inv_idle_def)
  have lh: "length (head_cluster s1) = j" using hd h1 by (simp add: inv_head_def)
  have nc': "node_count s1 = first_node cfg j" by (simp only: nc fs)
  from m c0 nr ch nc' lc ce lh show ?thesis
    apply (rule_tac x = s1 in exI)
    apply (intro conjI)
    apply assumption+
    done
qed

section \<open>The claims\<close>

text \<open>
  C5. When the stop time is below 10, the run is the diagnostic on the standard output and
  \<open>exit (1)\<close>, in the initial state: no node, no channel and no device exists. When the
  stop time is at least 10 and the clusters are the two of the source, sizes 4 and 3, the
  run creates the whole topology (7 nodes, the two wireless channels and the backbone
  channel, 7 cluster devices and 2 backbone devices), schedules the stop at the stop
  time, runs and destroys the engine, and leaves with exit code 0. The number drawn by
  the standard library's distribution is assumed to lie within the bounds it is given.
\<close>

theorem stop_time_validation:
  "(stopTime cfg < 10 \<longrightarrow>
      main_body cfg uni g =
        (Exited 1, (initial g)\<lparr>cout := [''Use a simulation stop time >= 10 seconds'']\<rparr>) \<and>
      node_count (snd (main_body cfg uni g)) = 0 \<and>
      channels (snd (main_body cfg uni g)) = [] \<and>
      devices (snd (main_body cfg uni g)) = []) \<and>
   (10 \<le> stopTime cfg \<and> clusterHeadNodes cfg = 2 \<and> infraNodes cfg = [4, 3] \<and>
    in_bounds uni \<longrightarrow>
      (\<exists>s. main_body cfg uni g = (Exited 0, s) \<and> node_count s = 7 \<and>
           length (channels s) = 3 \<and> length (devices s) = 9 \<and> cout s = [] \<and>
           stop_at s = Some (unat (stopTime cfg)) \<and> run_done s \<and> destroyed s))"
proof (intro conjI impI)
  assume lt: "stopTime cfg < 10"
  then show "main_body cfg uni g =
      (Exited 1, (initial g)\<lparr>cout := [''Use a simulation stop time >= 10 seconds'']\<rparr>)"
    by (simp add: main_body_def initial_def)
  then show "node_count (snd (main_body cfg uni g)) = 0"
    "channels (snd (main_body cfg uni g)) = []" "devices (snd (main_body cfg uni g)) = []"
    by (simp_all add: initial_def)
next
  assume a: "10 \<le> stopTime cfg \<and> clusterHeadNodes cfg = 2 \<and> infraNodes cfg = [4, 3] \<and>
    in_bounds uni"
  then have k: "cluster_count cfg = 2" and tk: "infraNodes cfg = [4, 3]"
    by (simp_all add: cluster_count_def)
  have v: "valid_config cfg"
    using a by (simp add: valid_config_def)
  from main_body_total[OF v, of uni g] a obtain s where run: "main_body cfg uni g = (Exited 0, s)"
    by blast
  have fn: "first_node cfg 2 = 7"
    by (simp add: first_node_def tk)
  from main_body_Exited[OF run] obtain s2 h' where
    asm: "assembled cfg uni g 2 s2"
    and s: "s = s2\<lparr>channels := channels s2 @ [CsmaChannel],
              devices := devices s2 @ map (\<lambda>v. (v, 2)) (head_cluster s2),
              addresses := addresses s2 @
                map (\<lambda>j. (first_node cfg 2 + j,
                          ipv4 172 16 0 0 OR (1 + of_nat j), ipv4 255 255 255 0))
                  [0 ..< 2],
              ipAddrsH := Some h',
              head_clusterDevices := [first_node cfg 2 ..< first_node cfg 2 + 2],
              anim_files := [''taller.xml''],
              stop_at := Some (unat (stopTime cfg)),
              run_done := True,
              destroyed := True\<rparr>"
    unfolding k
    apply (elim exE conjE)
    apply (rule that; assumption)
    done
  from asm have "node_count s2 = 7" "length (channels s2) = 2" "length (devices s2) = 7"
    "length (head_cluster s2) = 2" "cout s2 = []"
    by (simp_all add: assembled_def inv_nodes_def inv_head_def inv_idle_def fn)
  then have "node_count s = 7 \<and>
           length (channels s) = 3 \<and> length (devices s) = 9 \<and> cout s = [] \<and>
           stop_at s = Some (unat (stopTime cfg)) \<and> run_done s \<and> destroyed s"
    by (simp add: s)
  with run show "\<exists>s. main_body cfg uni g = (Exited 0, s) \<and> node_count s = 7 \<and>
           length (channels s) = 3 \<and> length (devices s) = 9 \<and> cout s = [] \<and>
           stop_at s = Some (unat (stopTime cfg)) \<and> run_done s \<and> destroyed s"
    by blast
qed

theorem stop_time_validation_witness:
  "stopTime (shipped\<lparr>stopTime := 5\<rparr>) < 10 \<and>
   main_body (shipped\<lparr>stopTime := 5\<rparr>) lcg_uni 7 =
     (Exited 1, (initial 7)\<lparr>cout := [''Use a simulation stop time >= 10 seconds'']\<rparr>) \<and>
   10 \<le> stopTime shipped \<and> clusterHeadNodes shipped = 2 \<and> infraNodes shipped = [4, 3] \<and>
   in_bounds lcg_uni \<and>
   (\<exists>s. main_body shipped lcg_uni 7 = (Exited 0, s) \<and> node_count s = 7 \<and>
        length (channels s) = 3 \<and> length (devices s) = 9 \<and> cout s = [] \<and>
        stop_at s = Some (unat (stopTime shipped)) \<and> run_done s \<and> destroyed s)"
  using stop_time_validation [of "shipped\<lparr>stopTime := 5\<rparr>" lcg_uni 7]
    stop_time_validation [of shipped lcg_uni 7] lcg_uni_in_bounds
  by (simp add: shipped_def)

text \<open>
  C3. For a configuration on which the assembly is defined, the run completes, and for
  every cluster \<open>i\<close> of size \<open>n\<close> the index is the number that the distribution
  returns for the bounds 0 and \<open>n - 1\<close> on the one generator, in the state that the
  draws of the earlier clusters left it in (\<open>gen\<close>: started once, advanced by every
  draw, never set again); the index lies in \<open>[0, n - 1]\<close>; the representative is the
  node of the cluster at that index; after the loop the generator has made exactly one
  draw per cluster. That the library's distribution is uniform on its bounds is its
  contract and no property of this program: what the program decides, and what is proved,
  is the bounds it passes and the generator it draws from.
\<close>

theorem representative_selection:
  assumes v: "valid_config cfg" and ib: "in_bounds uni"
  shows "\<exists>s. main_body cfg uni g = (Exited 0, s) \<and>
           length (head_cluster s) = cluster_count cfg \<and>
           rng s = gen cfg uni g (cluster_count cfg) \<and>
           (\<forall>i. i < cluster_count cfg \<longrightarrow>
              draw cfg uni g i =
                fst (uni 0 (int (unat (infraNodes cfg ! i)) - 1) (gen cfg uni g i)) \<and>
              gen cfg uni g (Suc i) =
                snd (uni 0 (int (unat (infraNodes cfg ! i)) - 1) (gen cfg uni g i)) \<and>
              0 \<le> draw cfg uni g i \<and>
              draw cfg uni g i \<le> int (unat (infraNodes cfg ! i)) - 1 \<and>
              head_cluster s ! i = clusters s ! i ! nat (draw cfg uni g i))"
proof -
  from main_body_total[OF v ib, of g] obtain s where run: "main_body cfg uni g = (Exited 0, s)"
    by blast
  from main_body_Exited[OF run] obtain s2 where
    asm: "assembled cfg uni g (cluster_count cfg) s2"
    and hc: "head_cluster s = head_cluster s2" and rg: "rng s = rng s2"
    and cl: "clusters s = clusters s2"
    by auto
  from asm have hd: "inv_head cfg uni g (cluster_count cfg) s2"
    and nodes: "inv_nodes cfg (cluster_count cfg) s2"
    by (simp_all add: assembled_def)
  have "draw cfg uni g i =
          fst (uni 0 (int (unat (infraNodes cfg ! i)) - 1) (gen cfg uni g i)) \<and>
        gen cfg uni g (Suc i) =
          snd (uni 0 (int (unat (infraNodes cfg ! i)) - 1) (gen cfg uni g i)) \<and>
        0 \<le> draw cfg uni g i \<and>
        draw cfg uni g i \<le> int (unat (infraNodes cfg ! i)) - 1 \<and>
        head_cluster s ! i = clusters s ! i ! nat (draw cfg uni g i)"
    if i: "i < cluster_count cfg" for i
  proof -
    from valid_size[OF v i] have sz: "1 \<le> infraNodes cfg ! i" "infraNodes cfg ! i \<le> 254"
      and il: "i < length (infraNodes cfg)"
      by simp_all
    have b: "sint (infraNodes cfg ! i - 1) = int (unat (infraNodes cfg ! i)) - 1"
      using sz by (rule sint_pred)
    from hd i have d0: "0 \<le> draw cfg uni g i"
      and dn: "nat (draw cfg uni g i) < unat (infraNodes cfg ! i)"
      and h: "head_cluster s2 ! i = first_node cfg i + nat (draw cfg uni g i)"
      unfolding inv_head_def by blast+
    from dn d0 have "draw cfg uni g i < int (unat (infraNodes cfg ! i))"
      by (simp only: nat_less_iff[OF d0])
    then have d1: "draw cfg uni g i \<le> int (unat (infraNodes cfg ! i)) - 1" by linarith
    have "clusters s2 ! i ! nat (draw cfg uni g i) = first_node cfg i + nat (draw cfg uni g i)"
      using dn by (simp add: cluster_nth[OF nodes i] first_node_Suc[OF il])
    with h have pick: "head_cluster s ! i = clusters s ! i ! nat (draw cfg uni g i)"
      by (simp add: hc cl)
    have "draw cfg uni g i = fst (uni 0 (int (unat (infraNodes cfg ! i)) - 1) (gen cfg uni g i))"
      by (simp only: draw_def b)
    moreover have "gen cfg uni g (Suc i) =
        snd (uni 0 (int (unat (infraNodes cfg ! i)) - 1) (gen cfg uni g i))"
      by (simp only: gen.simps b)
    ultimately show ?thesis using d0 d1 pick by blast
  qed
  moreover from hd have "length (head_cluster s) = cluster_count cfg"
    "rng s = gen cfg uni g (cluster_count cfg)"
    by (simp_all add: inv_head_def hc rg)
  ultimately show ?thesis using run by blast
qed

theorem representative_selection_witness:
  "valid_config shipped \<and> in_bounds lcg_uni \<and>
   (\<exists>s. main_body shipped lcg_uni 7 = (Exited 0, s) \<and>
           length (head_cluster s) = cluster_count shipped \<and>
           rng s = gen shipped lcg_uni 7 (cluster_count shipped) \<and>
           (\<forall>i. i < cluster_count shipped \<longrightarrow>
              draw shipped lcg_uni 7 i =
                fst (lcg_uni 0 (int (unat (infraNodes shipped ! i)) - 1) (gen shipped lcg_uni 7 i)) \<and>
              gen shipped lcg_uni 7 (Suc i) =
                snd (lcg_uni 0 (int (unat (infraNodes shipped ! i)) - 1) (gen shipped lcg_uni 7 i)) \<and>
              0 \<le> draw shipped lcg_uni 7 i \<and>
              draw shipped lcg_uni 7 i \<le> int (unat (infraNodes shipped ! i)) - 1 \<and>
              head_cluster s ! i = clusters s ! i ! nat (draw shipped lcg_uni 7 i)))"
  using shipped_valid lcg_uni_in_bounds
    representative_selection [OF shipped_valid lcg_uni_in_bounds, of 7]
  by (intro conjI)

text \<open>
  C9. In a run that completes, node \<open>a\<close> of cluster \<open>i\<close> is placed at the grid
  position \<open>a\<close> of the grid with origin \<open>((i + 1) * 50, (i + 1) * 20)\<close>: the origin
  depends on nothing but the index of the cluster. Every node of cluster \<open>i\<close> lies in
  the strip of the plane with \<open>(i + 1) * 50 \<le> x \<le> (i + 1) * 50 + 5\<close>; the strips of
  two clusters are disjoint, so no two nodes of different clusters have the same initial
  position. This holds for every configuration, and so for the one of the source.
\<close>

theorem cluster_placement:
  assumes run: "main_body cfg uni g = (Exited 0, s)"
  shows "length (positions s) = node_count s \<and>
    (\<forall>i a. i < cluster_count cfg \<and> a < unat (infraNodes cfg ! i) \<longrightarrow>
       positions s ! (first_node cfg i + a) =
         (clusters s ! i ! a, GridPosition ((int i + 1) * 50) ((int i + 1) * 20) 5 10 2 a) \<and>
       (int i + 1) * 50 \<le> fst (snd (positions s ! (first_node cfg i + a))) \<and>
       fst (snd (positions s ! (first_node cfg i + a))) \<le> (int i + 1) * 50 + 5) \<and>
    (\<forall>i j a b. i < cluster_count cfg \<and> j < cluster_count cfg \<and> i \<noteq> j \<and>
       a < unat (infraNodes cfg ! i) \<and> b < unat (infraNodes cfg ! j) \<longrightarrow>
       snd (positions s ! (first_node cfg i + a)) \<noteq> snd (positions s ! (first_node cfg j + b)))"
proof -
  define k where "k = cluster_count cfg"
  from main_body_Exited[OF run] obtain s2 where
    asm: "assembled cfg uni g k s2"
    and ps: "positions s = positions s2" and nc: "node_count s = node_count s2"
    and cl: "clusters s = clusters s2"
    unfolding k_def by auto
  from asm have pos: "inv_pos cfg k s2" and nodes: "inv_nodes cfg k s2"
    by (simp_all add: assembled_def)
  have kl: "k \<le> length (infraNodes cfg)" using nodes by (simp add: inv_nodes_def)
  have P: "positions s ! (first_node cfg i + a) =
         (clusters s ! i ! a, GridPosition ((int i + 1) * 50) ((int i + 1) * 20) 5 10 2 a)"
    if "i < k" "a < unat (infraNodes cfg ! i)" for i a
  proof -
    from that kl have il: "i < length (infraNodes cfg)" by simp
    have "clusters s2 ! i ! a = first_node cfg i + a"
      using that(2) by (simp add: cluster_nth[OF nodes that(1)] first_node_Suc[OF il])
    moreover from pos that have "positions s2 ! (first_node cfg i + a) =
        (first_node cfg i + a, GridPosition ((int i + 1) * 50) ((int i + 1) * 20) 5 10 2 a)"
      unfolding inv_pos_def by blast
    ultimately show ?thesis by (simp add: ps cl)
  qed
  have X: "(int i + 1) * 50 \<le> fst (snd (positions s ! (first_node cfg i + a))) \<and>
       fst (snd (positions s ! (first_node cfg i + a))) \<le> (int i + 1) * 50 + 5"
    if "i < k" "a < unat (infraNodes cfg ! i)" for i a
    using GridPosition_strip[of "(int i + 1) * 50" "(int i + 1) * 20" a] by (simp add: P[OF that])
  have D: "snd (positions s ! (first_node cfg i + a)) \<noteq> snd (positions s ! (first_node cfg j + b))"
    if "i < k" "j < k" "i \<noteq> j" "a < unat (infraNodes cfg ! i)" "b < unat (infraNodes cfg ! j)"
    for i j a b
  proof
    assume "snd (positions s ! (first_node cfg i + a)) = snd (positions s ! (first_node cfg j + b))"
    then have e: "fst (snd (positions s ! (first_node cfg i + a))) =
        fst (snd (positions s ! (first_node cfg j + b)))" by simp
    from X[OF that(1,4)] X[OF that(2,5)] e
    have "(int i + 1) * 50 \<le> (int j + 1) * 50 + 5" "(int j + 1) * 50 \<le> (int i + 1) * 50 + 5"
      by simp_all
    then have "int i = int j" by presburger
    with that(3) show False by simp
  qed
  have "length (positions s) = node_count s"
    using pos nodes by (simp add: inv_pos_def inv_nodes_def ps nc)
  with P X D show ?thesis unfolding k_def by blast
qed

theorem cluster_placement_witness:
  "\<exists>s. main_body shipped lcg_uni 7 = (Exited 0, s) \<and>
     length (positions s) = node_count s \<and>
     (\<forall>i a. i < cluster_count shipped \<and> a < unat (infraNodes shipped ! i) \<longrightarrow>
       positions s ! (first_node shipped i + a) =
         (clusters s ! i ! a, GridPosition ((int i + 1) * 50) ((int i + 1) * 20) 5 10 2 a) \<and>
       (int i + 1) * 50 \<le> fst (snd (positions s ! (first_node shipped i + a))) \<and>
       fst (snd (positions s ! (first_node shipped i + a))) \<le> (int i + 1) * 50 + 5) \<and>
     (\<forall>i j a b. i < cluster_count shipped \<and> j < cluster_count shipped \<and> i \<noteq> j \<and>
       a < unat (infraNodes shipped ! i) \<and> b < unat (infraNodes shipped ! j) \<longrightarrow>
       snd (positions s ! (first_node shipped i + a)) \<noteq>
         snd (positions s ! (first_node shipped j + b)))"
proof -
  from main_body_total[OF shipped_valid lcg_uni_in_bounds, of 7]
  obtain s where run: "main_body shipped lcg_uni 7 = (Exited 0, s)" by blast
  from cluster_placement [OF run] run show ?thesis by blast
qed

text \<open>
  C4. In a run that completes there is one representative per cluster: the \<open>i\<close>-th
  entry of \<open>head_cluster\<close> is a node of cluster \<open>i\<close>, and no other node of the cluster
  is a representative. A representative has exactly two interfaces: the device it got
  in its cluster, on the cluster's wireless channel, which keeps its address in the
  cluster's subnet, and its device on the backbone channel. Every other node has exactly
  one interface. The network stack's own loopback interface is no part of the spec's
  model of a node and is not counted.
\<close>

theorem backbone_interfaces:
  assumes run: "main_body cfg uni g = (Exited 0, s)"
  shows "length (head_cluster s) = cluster_count cfg \<and>
    length (clusters s) = cluster_count cfg \<and>
    (\<forall>i. i < cluster_count cfg \<longrightarrow>
       head_cluster s ! i \<in> set (clusters s ! i) \<and>
       (\<forall>v. v \<in> set (clusters s ! i) \<and> v \<in> set (head_cluster s) \<longrightarrow> v = head_cluster s ! i) \<and>
       (\<exists>d. d \<in> set (clusterDevices s ! i) \<and>
          interfaces s (head_cluster s ! i) = [d, head_clusterDevices s ! i] \<and>
          node_addresses s (head_cluster s ! i) =
            [addresses s ! d, addresses s ! (head_clusterDevices s ! i)] \<and>
          fst (addresses s ! d) = d \<and>
          in_subnet (fst (snd (addresses s ! d))) (pool_base i, ipv4 255 255 255 0) \<and>
          snd (devices s ! d) = i \<and> channels s ! i = YansWifiChannel \<and>
          snd (devices s ! (head_clusterDevices s ! i)) = cluster_count cfg \<and>
          channels s ! cluster_count cfg = CsmaChannel)) \<and>
    (\<forall>v. v \<in> set (head_cluster s) \<longrightarrow> length (interfaces s v) = 2) \<and>
    (\<forall>v. v < node_count s \<and> v \<notin> set (head_cluster s) \<longrightarrow> length (interfaces s v) = 1)"
proof -
  define k where "k = cluster_count cfg"
  define N where "N = first_node cfg k"
  note sz = run_sizes[OF run, folded k_def, folded N_def]
  note cnt = run_count[OF run, folded k_def]
  have lh: "length (head_cluster s) = k" using sz by simp
  have lc: "length (clusters s) = k" using run_containers[OF run] by (simp add: k_def)
  have chan: "channels s = replicate k YansWifiChannel @ [CsmaChannel]"
    using run_channels[OF run] by (simp add: k_def)
  have hcd: "head_clusterDevices s = [N ..< N + k]"
    using run_containers[OF run] by (simp add: k_def N_def)
  have rep: "head_cluster s ! i \<in> set (clusters s ! i) \<and>
       (\<forall>v. v \<in> set (clusters s ! i) \<and> v \<in> set (head_cluster s) \<longrightarrow> v = head_cluster s ! i) \<and>
       (\<exists>d. d \<in> set (clusterDevices s ! i) \<and>
          interfaces s (head_cluster s ! i) = [d, head_clusterDevices s ! i] \<and>
          node_addresses s (head_cluster s ! i) =
            [addresses s ! d, addresses s ! (head_clusterDevices s ! i)] \<and>
          fst (addresses s ! d) = d \<and>
          in_subnet (fst (snd (addresses s ! d))) (pool_base i, ipv4 255 255 255 0) \<and>
          snd (devices s ! d) = i \<and> channels s ! i = YansWifiChannel \<and>
          snd (devices s ! (head_clusterDevices s ! i)) = k \<and>
          channels s ! k = CsmaChannel)"
    if i: "i < k" for i
  proof -
    from i have ic: "i < cluster_count cfg" by (simp add: k_def)
    from i cnt have i3: "i < 3" by simp
    define v where "v = head_cluster s ! i"
    define a where "a = nat (draw cfg uni g i)"
    from run_backbone[OF run ic]
    have bd: "devices s ! (N + i) = (v, k)" and va: "v = first_node cfg i + a"
      and an: "a < unat (infraNodes cfg ! i)"
      by (simp_all add: k_def N_def v_def a_def)
    from run_cluster[OF run ic an]
    have cd: "devices s ! v = (v, i)" and a254: "a < 254"
      and ca: "addresses s ! v = (v, pool_base i OR (1 + of_nat a), ipv4 255 255 255 0)"
      by (simp_all add: va)
    have vn: "v < node_count s" using run_head(2)[OF run ic] by (simp add: v_def)
    have vcd: "v \<in> set (clusterDevices s ! i)"
      using an by (simp add: run_cluster_nth[OF run ic] va)
    have ifs: "interfaces s v = [v, N + i]"
      using run_interfaces[OF run vn] run_head_filter(1)[OF run ic]
      by (simp add: v_def k_def N_def)
    have hi: "head_clusterDevices s ! i = N + i" using i by (simp add: hcd)
    have na: "node_addresses s v = [addresses s ! v, addresses s ! (N + i)]"
      by (simp add: run_node_addresses[OF run] ifs)
    have ins: "in_subnet (fst (snd (addresses s ! v))) (pool_base i, ipv4 255 255 255 0)"
      by (simp add: ca in_subnet_def cluster_address_in_subnet[OF i3 a254])
    have ch: "channels s ! i = YansWifiChannel" "channels s ! k = CsmaChannel"
      using i by (simp_all add: chan nth_append)
    have "v \<in> set (clusterDevices s ! i) \<and>
          interfaces s v = [v, head_clusterDevices s ! i] \<and>
          node_addresses s v = [addresses s ! v, addresses s ! (head_clusterDevices s ! i)] \<and>
          fst (addresses s ! v) = v \<and>
          in_subnet (fst (snd (addresses s ! v))) (pool_base i, ipv4 255 255 255 0) \<and>
          snd (devices s ! v) = i \<and> channels s ! i = YansWifiChannel \<and>
          snd (devices s ! (head_clusterDevices s ! i)) = k \<and>
          channels s ! k = CsmaChannel"
      using vcd ifs na ins ch cd bd by (simp add: hi ca)
    then have ex: "\<exists>d. d \<in> set (clusterDevices s ! i) \<and>
          interfaces s v = [d, head_clusterDevices s ! i] \<and>
          node_addresses s v = [addresses s ! d, addresses s ! (head_clusterDevices s ! i)] \<and>
          fst (addresses s ! d) = d \<and>
          in_subnet (fst (snd (addresses s ! d))) (pool_base i, ipv4 255 255 255 0) \<and>
          snd (devices s ! d) = i \<and> channels s ! i = YansWifiChannel \<and>
          snd (devices s ! (head_clusterDevices s ! i)) = k \<and>
          channels s ! k = CsmaChannel"
      by (rule exI[of _ v])
    from run_head(1)[OF run ic] run_head(3)[OF run ic] ex show ?thesis
      unfolding v_def by blast
  qed
  have two: "length (interfaces s v) = 2" if "v \<in> set (head_cluster s)" for v
  proof -
    from that lh obtain i where i: "i < k" and v: "v = head_cluster s ! i"
      by (auto simp: in_set_conv_nth)
    from rep[OF i] obtain d where "interfaces s v = [d, head_clusterDevices s ! i]"
      unfolding v by blast
    then show ?thesis by simp
  qed
  have one: "length (interfaces s v) = 1" if "v < node_count s" "v \<notin> set (head_cluster s)" for v
    using run_interfaces[OF run that(1)] run_head_filter(2)[OF run that(2)] by simp
  from lh lc rep two one show ?thesis unfolding k_def by blast
qed

theorem backbone_interfaces_witness:
  "\<exists>s. main_body shipped lcg_uni 7 = (Exited 0, s) \<and>
    (length (head_cluster s) = cluster_count shipped \<and>
    length (clusters s) = cluster_count shipped \<and>
    (\<forall>i. i < cluster_count shipped \<longrightarrow>
       head_cluster s ! i \<in> set (clusters s ! i) \<and>
       (\<forall>v. v \<in> set (clusters s ! i) \<and> v \<in> set (head_cluster s) \<longrightarrow> v = head_cluster s ! i) \<and>
       (\<exists>d. d \<in> set (clusterDevices s ! i) \<and>
          interfaces s (head_cluster s ! i) = [d, head_clusterDevices s ! i] \<and>
          node_addresses s (head_cluster s ! i) =
            [addresses s ! d, addresses s ! (head_clusterDevices s ! i)] \<and>
          fst (addresses s ! d) = d \<and>
          in_subnet (fst (snd (addresses s ! d))) (pool_base i, ipv4 255 255 255 0) \<and>
          snd (devices s ! d) = i \<and> channels s ! i = YansWifiChannel \<and>
          snd (devices s ! (head_clusterDevices s ! i)) = cluster_count shipped \<and>
          channels s ! cluster_count shipped = CsmaChannel)) \<and>
    (\<forall>v. v \<in> set (head_cluster s) \<longrightarrow> length (interfaces s v) = 2) \<and>
    (\<forall>v. v < node_count s \<and> v \<notin> set (head_cluster s) \<longrightarrow> length (interfaces s v) = 1))"
proof -
  from main_body_total[OF shipped_valid lcg_uni_in_bounds, of 7]
  obtain s where run: "main_body shipped lcg_uni 7 = (Exited 0, s)" by blast
  show ?thesis
    by (rule exI[of _ s], rule conjI[OF run backbone_interfaces [OF run]])
qed

text \<open>
  C2. In a run that completes, the nodes are those of the clusters: their number is the sum
  of the sizes. Cluster \<open>i\<close> of size \<open>n\<close> holds \<open>n\<close> different nodes, none of which
  belongs to another cluster. Node \<open>a\<close> of the cluster has, among all its addresses,
  exactly one in the cluster's subnet: the address with host number \<open>a + 1\<close>, on the
  device it got in the cluster, which is attached to channel \<open>i\<close>. Channel \<open>i\<close> is a
  wireless channel, and every device on it belongs to a node of cluster \<open>i\<close>: the
  channel is the cluster's own. (A size of 0 never occurs in a completed run.)
\<close>

theorem cluster_nodes_addresses:
  assumes run: "main_body cfg uni g = (Exited 0, s)"
  shows "node_count s = sum_list (map unat (take (cluster_count cfg) (infraNodes cfg))) \<and>
    (\<forall>i. i < cluster_count cfg \<longrightarrow>
       length (clusters s ! i) = unat (infraNodes cfg ! i) \<and>
       distinct (clusters s ! i) \<and>
       (\<forall>j. j < cluster_count cfg \<and> j \<noteq> i \<longrightarrow>
          set (clusters s ! i) \<inter> set (clusters s ! j) = {}) \<and>
       channels s ! i = YansWifiChannel \<and>
       (\<forall>d. d < length (devices s) \<and> snd (devices s ! d) = i \<longrightarrow>
          fst (devices s ! d) \<in> set (clusters s ! i)) \<and>
       (\<forall>a. a < unat (infraNodes cfg ! i) \<longrightarrow>
          clusters s ! i ! a < node_count s \<and>
          devices s ! (clusterDevices s ! i ! a) = (clusters s ! i ! a, i) \<and>
          filter (\<lambda>e. in_subnet (fst (snd e)) (pool_base i, ipv4 255 255 255 0))
              (node_addresses s (clusters s ! i ! a)) =
            [(clusterDevices s ! i ! a, pool_base i OR (1 + of_nat a), ipv4 255 255 255 0)] \<and>
          in_subnet (pool_base i OR (1 + of_nat a)) (pool_base i, ipv4 255 255 255 0)))"
proof -
  define k where "k = cluster_count cfg"
  define N where "N = first_node cfg k"
  note sz = run_sizes[OF run, folded k_def, folded N_def]
  note cnt = run_count[OF run, folded k_def]
  have chan: "channels s = replicate k YansWifiChannel @ [CsmaChannel]"
    using run_channels[OF run] by (simp add: k_def)
  have total: "node_count s = sum_list (map unat (take (cluster_count cfg) (infraNodes cfg)))"
    using run_sizes[OF run] by (simp add: first_node_def)
  have per: "length (clusters s ! i) = unat (infraNodes cfg ! i) \<and>
       distinct (clusters s ! i) \<and>
       (\<forall>j. j < k \<and> j \<noteq> i \<longrightarrow> set (clusters s ! i) \<inter> set (clusters s ! j) = {}) \<and>
       channels s ! i = YansWifiChannel \<and>
       (\<forall>d. d < length (devices s) \<and> snd (devices s ! d) = i \<longrightarrow>
          fst (devices s ! d) \<in> set (clusters s ! i)) \<and>
       (\<forall>a. a < unat (infraNodes cfg ! i) \<longrightarrow>
          clusters s ! i ! a < node_count s \<and>
          devices s ! (clusterDevices s ! i ! a) = (clusters s ! i ! a, i) \<and>
          filter (\<lambda>e. in_subnet (fst (snd e)) (pool_base i, ipv4 255 255 255 0))
              (node_addresses s (clusters s ! i ! a)) =
            [(clusterDevices s ! i ! a, pool_base i OR (1 + of_nat a), ipv4 255 255 255 0)] \<and>
          in_subnet (pool_base i OR (1 + of_nat a)) (pool_base i, ipv4 255 255 255 0))"
    if i: "i < k" for i
  proof -
    from i have ic: "i < cluster_count cfg" by (simp add: k_def)
    from i cnt have i3: "i < 3" and il: "i < length (infraNodes cfg)" by simp_all
    note ci = run_cluster_nth[OF run ic]
    have l: "length (clusters s ! i) = unat (infraNodes cfg ! i)" and d: "distinct (clusters s ! i)"
      by (simp_all add: ci)
    have disj: "set (clusters s ! i) \<inter> set (clusters s ! j) = {}" if j: "j < k" "j \<noteq> i" for j
    proof (rule ccontr)
      assume "set (clusters s ! i) \<inter> set (clusters s ! j) \<noteq> {}"
      then obtain v where vi: "v \<in> set (clusters s ! i)" and vj: "v \<in> set (clusters s ! j)"
        by blast
      from j have jc: "j < cluster_count cfg" by (simp add: k_def)
      define a where "a = v - first_node cfg i"
      define b where "b = v - first_node cfg j"
      from vi have va: "v = first_node cfg i + a" "a < unat (infraNodes cfg ! i)"
        by (auto simp: ci a_def)
      from vj have vb: "v = first_node cfg j + b" "b < unat (infraNodes cfg ! j)"
        by (auto simp: run_cluster_nth[OF run jc] b_def)
      from va(1) vb(1) have "first_node cfg i + a = first_node cfg j + b" by simp
      from node_cluster_unique[OF this va(2) vb(2)] i j cnt have "i = j" by simp
      with j(2) show False by simp
    qed
    have ch: "channels s ! i = YansWifiChannel" using i by (simp add: chan nth_append)
    have priv: "fst (devices s ! d) \<in> set (clusters s ! i)"
      if dl: "d < length (devices s)" and sd: "snd (devices s ! d) = i" for d
    proof (cases "d < N")
      case True
      then have dn: "d < first_node cfg k" by (simp add: N_def)
      from node_cluster_exists[OF dn] cnt obtain j a where
        ja: "j < k" "a < unat (infraNodes cfg ! j)" "d = first_node cfg j + a" by blast
      from ja(1) have jc: "j < cluster_count cfg" by (simp add: k_def)
      from run_cluster[OF run jc ja(2)] have dv: "devices s ! d = (d, j)" by (simp add: ja(3))
      with sd have "j = i" by simp
      with dv ja show ?thesis by (simp add: ci)
    next
      case False
      define j where "j = d - N"
      from False dl sz have j: "j < cluster_count cfg" and dj: "d = N + j"
        by (simp_all add: j_def k_def)
      from run_backbone[OF run j] have "snd (devices s ! d) = k"
        by (simp add: dj N_def k_def)
      with sd i show ?thesis by simp
    qed
    have nodes: "clusters s ! i ! a < node_count s \<and>
          devices s ! (clusterDevices s ! i ! a) = (clusters s ! i ! a, i) \<and>
          filter (\<lambda>e. in_subnet (fst (snd e)) (pool_base i, ipv4 255 255 255 0))
              (node_addresses s (clusters s ! i ! a)) =
            [(clusterDevices s ! i ! a, pool_base i OR (1 + of_nat a), ipv4 255 255 255 0)] \<and>
          in_subnet (pool_base i OR (1 + of_nat a)) (pool_base i, ipv4 255 255 255 0)"
      if a: "a < unat (infraNodes cfg ! i)" for a
    proof -
      define v where "v = first_node cfg i + a"
      have cv: "clusters s ! i ! a = v" "clusterDevices s ! i ! a = v"
        using a by (simp_all add: ci v_def)
      from run_cluster[OF run ic a]
      have dv: "devices s ! v = (v, i)" and a254: "a < 254"
        and av: "addresses s ! v = (v, pool_base i OR (1 + of_nat a), ipv4 255 255 255 0)"
        and vN: "v < N"
        by (simp_all add: v_def N_def k_def)
      have vn: "v < node_count s" using vN sz by simp
      have ins: "in_subnet (pool_base i OR (1 + of_nat a)) (pool_base i, ipv4 255 255 255 0)"
        by (simp add: in_subnet_def cluster_address_in_subnet[OF i3 a254])
      have out: "\<not> in_subnet (fst (snd (addresses s ! (N + j)))) (pool_base i, ipv4 255 255 255 0)"
        if "j < k" for j
      proof -
        from that have jc: "j < cluster_count cfg" by (simp add: k_def)
        from that cnt have "j < 254" by simp
        from run_backbone[OF run jc] backbone_address_in_subnet[OF this]
          pool_base_not_backbone[OF i3]
        show ?thesis by (auto simp: in_subnet_def N_def k_def)
      qed
      have "filter (\<lambda>e. in_subnet (fst (snd e)) (pool_base i, ipv4 255 255 255 0))
              (node_addresses s v) =
            [(v, pool_base i OR (1 + of_nat a), ipv4 255 255 255 0)]"
      proof (cases "v \<in> set (head_cluster s)")
        case True
        with sz obtain j where j: "j < k" and vj: "v = head_cluster s ! j"
          by (auto simp: in_set_conv_nth)
        from j have jc: "j < cluster_count cfg" by (simp add: k_def)
        have "interfaces s v = [v, N + j]"
          using run_interfaces[OF run vn] run_head_filter(1)[OF run jc]
          by (simp add: vj k_def N_def)
        then have "node_addresses s v = [addresses s ! v, addresses s ! (N + j)]"
          by (simp add: run_node_addresses[OF run])
        with out[OF j] ins show ?thesis by (simp add: av)
      next
        case False
        have "interfaces s v = [v]"
          using run_interfaces[OF run vn] run_head_filter(2)[OF run False] by simp
        then have "node_addresses s v = [addresses s ! v]"
          by (simp add: run_node_addresses[OF run])
        with ins show ?thesis by (simp add: av)
      qed
      with vn dv ins show ?thesis by (simp add: cv)
    qed
    from l d disj ch priv nodes show ?thesis by blast
  qed
  from total per show ?thesis unfolding k_def by blast
qed

theorem cluster_nodes_addresses_witness:
  "\<exists>s. main_body shipped lcg_uni 7 = (Exited 0, s) \<and>
    (node_count s = sum_list (map unat (take (cluster_count shipped) (infraNodes shipped))) \<and>
    (\<forall>i. i < cluster_count shipped \<longrightarrow>
       length (clusters s ! i) = unat (infraNodes shipped ! i) \<and>
       distinct (clusters s ! i) \<and>
       (\<forall>j. j < cluster_count shipped \<and> j \<noteq> i \<longrightarrow>
          set (clusters s ! i) \<inter> set (clusters s ! j) = {}) \<and>
       channels s ! i = YansWifiChannel \<and>
       (\<forall>d. d < length (devices s) \<and> snd (devices s ! d) = i \<longrightarrow>
          fst (devices s ! d) \<in> set (clusters s ! i)) \<and>
       (\<forall>a. a < unat (infraNodes shipped ! i) \<longrightarrow>
          clusters s ! i ! a < node_count s \<and>
          devices s ! (clusterDevices s ! i ! a) = (clusters s ! i ! a, i) \<and>
          filter (\<lambda>e. in_subnet (fst (snd e)) (pool_base i, ipv4 255 255 255 0))
              (node_addresses s (clusters s ! i ! a)) =
            [(clusterDevices s ! i ! a, pool_base i OR (1 + of_nat a), ipv4 255 255 255 0)] \<and>
          in_subnet (pool_base i OR (1 + of_nat a)) (pool_base i, ipv4 255 255 255 0))))"
proof -
  from main_body_total[OF shipped_valid lcg_uni_in_bounds, of 7]
  obtain s where run: "main_body shipped lcg_uni 7 = (Exited 0, s)" by blast
  show ?thesis
    by (rule exI[of _ s], rule conjI[OF run cluster_nodes_addresses [OF run]])
qed

text \<open>
  C1. In a run that completes, all addresses of the devices of cluster \<open>i\<close> lie in one
  subnet, the /24 network \<open>pool_base i\<close> of the cluster's own address helper; the
  addresses of the backbone devices lie in 172.16.0.0/24; the subnets of two different
  clusters do not overlap, and none overlaps the backbone's. For one pool used
  repeatedly, with the /24 mask: the blocks it issues all have that mask, every later
  block has a strictly greater network address than every earlier one, and no two blocks
  overlap (a pool that is exhausted aborts instead of issuing a block).
\<close>

theorem subnets_disjoint:
  "(main_body cfg uni g = (Exited 0, s) \<longrightarrow>
      (\<forall>i. i < cluster_count cfg \<longrightarrow>
         container_subnets s (clusterDevices s ! i) = {(pool_base i, ipv4 255 255 255 0)}) \<and>
      container_subnets s (head_clusterDevices s) \<subseteq> {(ipv4 172 16 0 0, ipv4 255 255 255 0)} \<and>
      (0 < cluster_count cfg \<longrightarrow>
         container_subnets s (head_clusterDevices s) = {(ipv4 172 16 0 0, ipv4 255 255 255 0)}) \<and>
      (\<forall>i j x y. i < cluster_count cfg \<and> j < cluster_count cfg \<and> i \<noteq> j \<and>
         x \<in> container_subnets s (clusterDevices s ! i) \<and>
         y \<in> container_subnets s (clusterDevices s ! j) \<longrightarrow> \<not> overlap x y) \<and>
      (\<forall>i x y. i < cluster_count cfg \<and> x \<in> container_subnets s (clusterDevices s ! i) \<and>
         y \<in> container_subnets s (head_clusterDevices s) \<longrightarrow> \<not> overlap x y) \<and>
      (\<forall>i x. i < cluster_count cfg \<and> x \<in> container_subnets s (clusterDevices s ! i) \<longrightarrow>
         \<not> overlap x (ipv4 172 16 0 0, ipv4 255 255 255 0))) \<and>
   (m_mask h = ipv4 255 255 255 0 \<and> issue n h = Inr bs \<longrightarrow>
      length bs = n \<and>
      (\<forall>a b. a < b \<and> b < n \<longrightarrow>
         snd (bs ! a) = ipv4 255 255 255 0 \<and> snd (bs ! b) = ipv4 255 255 255 0 \<and>
         fst (bs ! a) < fst (bs ! b) \<and> \<not> overlap (bs ! a) (bs ! b)))"
proof (intro conjI impI)
  assume run: "main_body cfg uni g = (Exited 0, s)"
  from run_count[OF run] have k3: "cluster_count cfg \<le> 3" by simp
  show cs: "\<forall>i. i < cluster_count cfg \<longrightarrow>
         container_subnets s (clusterDevices s ! i) = {(pool_base i, ipv4 255 255 255 0)}"
    using run_cluster_subnets[OF run] by blast
  show bbs: "container_subnets s (head_clusterDevices s) \<subseteq> {(ipv4 172 16 0 0, ipv4 255 255 255 0)}"
    by (rule run_backbone_subnets(1)[OF run])
  show "container_subnets s (head_clusterDevices s) = {(ipv4 172 16 0 0, ipv4 255 255 255 0)}"
    if "0 < cluster_count cfg"
    using bbs run_backbone_subnets(2)[OF run that] by blast
  show "\<forall>i j x y. i < cluster_count cfg \<and> j < cluster_count cfg \<and> i \<noteq> j \<and>
         x \<in> container_subnets s (clusterDevices s ! i) \<and>
         y \<in> container_subnets s (clusterDevices s ! j) \<longrightarrow> \<not> overlap x y"
  proof (intro allI impI notI)
    fix i j x y
    assume a: "i < cluster_count cfg \<and> j < cluster_count cfg \<and> i \<noteq> j \<and>
         x \<in> container_subnets s (clusterDevices s ! i) \<and>
         y \<in> container_subnets s (clusterDevices s ! j)" and ov: "overlap x y"
    from a cs have "x = (pool_base i, ipv4 255 255 255 0)" "y = (pool_base j, ipv4 255 255 255 0)"
      by auto
    with ov have "pool_base i = pool_base j" by (simp add: overlap_same_mask)
    moreover from a k3 have "i < 3" "j < 3" by simp_all
    ultimately have "i = j" by (rule_tac pool_base_inj)
    with a show False by simp
  qed
  have nb: "\<not> overlap x (ipv4 172 16 0 0, ipv4 255 255 255 0)"
    if "i < cluster_count cfg" "x \<in> container_subnets s (clusterDevices s ! i)" for i x
  proof
    assume ov: "overlap x (ipv4 172 16 0 0, ipv4 255 255 255 0)"
    from that cs have "x = (pool_base i, ipv4 255 255 255 0)" by auto
    with ov have "pool_base i = ipv4 172 16 0 0" by (simp add: overlap_same_mask)
    moreover from that k3 have "i < 3" by simp
    ultimately show False using pool_base_not_backbone by blast
  qed
  then show "\<forall>i x. i < cluster_count cfg \<and> x \<in> container_subnets s (clusterDevices s ! i) \<longrightarrow>
         \<not> overlap x (ipv4 172 16 0 0, ipv4 255 255 255 0)"
    by blast
  show "\<forall>i x y. i < cluster_count cfg \<and> x \<in> container_subnets s (clusterDevices s ! i) \<and>
         y \<in> container_subnets s (head_clusterDevices s) \<longrightarrow> \<not> overlap x y"
  proof (intro allI impI)
    fix i x y
    assume a: "i < cluster_count cfg \<and> x \<in> container_subnets s (clusterDevices s ! i) \<and>
         y \<in> container_subnets s (head_clusterDevices s)"
    with bbs have "y = (ipv4 172 16 0 0, ipv4 255 255 255 0)" by auto
    with nb[of i x] a show "\<not> overlap x y" by blast
  qed
next
  assume a: "m_mask h = ipv4 255 255 255 0 \<and> issue n h = Inr bs"
  then have mk: "m_mask h = 0xFFFFFF00" and iss: "issue n h = Inr bs" by (simp_all add: mask24)
  from issue_blocks[OF mk iss]
  have len: "length bs = n" and lo: "\<And>x. x \<in> set bs \<Longrightarrow> snd x = 0xFFFFFF00"
    and inc: "\<And>a b. a < b \<Longrightarrow> b < n \<Longrightarrow> fst (bs ! a) < fst (bs ! b)"
    by blast+
  show "length bs = n" by (rule len)
  show "\<forall>a b. a < b \<and> b < n \<longrightarrow>
         snd (bs ! a) = ipv4 255 255 255 0 \<and> snd (bs ! b) = ipv4 255 255 255 0 \<and>
         fst (bs ! a) < fst (bs ! b) \<and> \<not> overlap (bs ! a) (bs ! b)"
  proof (intro allI impI)
    fix a b assume ab: "a < b \<and> b < n"
    then have "bs ! a \<in> set bs" "bs ! b \<in> set bs" using len by simp_all
    then have ma: "snd (bs ! a) = ipv4 255 255 255 0" and mb: "snd (bs ! b) = ipv4 255 255 255 0"
      using lo by (simp_all add: mask24)
    from ab inc have lt: "fst (bs ! a) < fst (bs ! b)" by simp
    have "\<not> overlap (bs ! a) (bs ! b)"
    proof
      assume "overlap (bs ! a) (bs ! b)"
      then have "overlap (fst (bs ! a), ipv4 255 255 255 0) (fst (bs ! b), ipv4 255 255 255 0)"
        using ma mb by (metis prod.collapse)
      then have "fst (bs ! a) = fst (bs ! b)" by (rule overlap_same_mask)
      with lt show False by simp
    qed
    with ma mb lt show "snd (bs ! a) = ipv4 255 255 255 0 \<and> snd (bs ! b) = ipv4 255 255 255 0 \<and>
         fst (bs ! a) < fst (bs ! b) \<and> \<not> overlap (bs ! a) (bs ! b)" by simp
  qed
qed

theorem subnets_disjoint_witness:
  "(\<exists>s. main_body shipped lcg_uni 7 = (Exited 0, s) \<and>
      ((\<forall>i. i < cluster_count shipped \<longrightarrow>
         container_subnets s (clusterDevices s ! i) = {(pool_base i, ipv4 255 255 255 0)}) \<and>
      container_subnets s (head_clusterDevices s) \<subseteq> {(ipv4 172 16 0 0, ipv4 255 255 255 0)} \<and>
      (0 < cluster_count shipped \<longrightarrow>
         container_subnets s (head_clusterDevices s) = {(ipv4 172 16 0 0, ipv4 255 255 255 0)}) \<and>
      (\<forall>i j x y. i < cluster_count shipped \<and> j < cluster_count shipped \<and> i \<noteq> j \<and>
         x \<in> container_subnets s (clusterDevices s ! i) \<and>
         y \<in> container_subnets s (clusterDevices s ! j) \<longrightarrow> \<not> overlap x y) \<and>
      (\<forall>i x y. i < cluster_count shipped \<and> x \<in> container_subnets s (clusterDevices s ! i) \<and>
         y \<in> container_subnets s (head_clusterDevices s) \<longrightarrow> \<not> overlap x y) \<and>
      (\<forall>i x. i < cluster_count shipped \<and> x \<in> container_subnets s (clusterDevices s ! i) \<longrightarrow>
         \<not> overlap x (ipv4 172 16 0 0, ipv4 255 255 255 0)))) \<and>
   (m_mask (SetBase (ipv4 192 167 0 0) (ipv4 255 255 255 0)) = ipv4 255 255 255 0 \<and>
    issue (Suc (Suc 0)) (SetBase (ipv4 192 167 0 0) (ipv4 255 255 255 0)) =
      Inr [(ipv4 192 167 0 0, ipv4 255 255 255 0), (ipv4 192 167 1 0, ipv4 255 255 255 0)]) \<and>
   length [(ipv4 192 167 0 0, ipv4 255 255 255 0), (ipv4 192 167 1 0, ipv4 255 255 255 0)] =
      Suc (Suc 0) \<and>
   snd ([(ipv4 192 167 0 0, ipv4 255 255 255 0), (ipv4 192 167 1 0, ipv4 255 255 255 0)] ! 0) =
     ipv4 255 255 255 0 \<and>
   snd ([(ipv4 192 167 0 0, ipv4 255 255 255 0), (ipv4 192 167 1 0, ipv4 255 255 255 0)] ! Suc 0) =
     ipv4 255 255 255 0 \<and>
   fst ([(ipv4 192 167 0 0, ipv4 255 255 255 0), (ipv4 192 167 1 0, ipv4 255 255 255 0)] ! 0) <
     fst ([(ipv4 192 167 0 0, ipv4 255 255 255 0), (ipv4 192 167 1 0, ipv4 255 255 255 0)] ! Suc 0) \<and>
   \<not> overlap
     ([(ipv4 192 167 0 0, ipv4 255 255 255 0), (ipv4 192 167 1 0, ipv4 255 255 255 0)] ! 0)
     ([(ipv4 192 167 0 0, ipv4 255 255 255 0), (ipv4 192 167 1 0, ipv4 255 255 255 0)] ! Suc 0)"
proof -
  from main_body_total[OF shipped_valid lcg_uni_in_bounds, of 7]
  obtain s where run: "main_body shipped lcg_uni 7 = (Exited 0, s)" by blast
  have mk: "m_mask (SetBase (ipv4 192 167 0 0) (ipv4 255 255 255 0)) = ipv4 255 255 255 0"
    by (simp add: SetBase_def)
  note pool = conjI[OF mk issue_example]
  note t = subnets_disjoint [of shipped lcg_uni 7 s
      "SetBase (ipv4 192 167 0 0) (ipv4 255 255 255 0)" "Suc (Suc 0)"
      "[(ipv4 192 167 0 0, ipv4 255 255 255 0), (ipv4 192 167 1 0, ipv4 255 255 255 0)]"]
  note A = t[THEN conjunct1, THEN mp, OF run]
  note B = t[THEN conjunct2, THEN mp, OF pool]
  have ab: "(0 :: nat) < Suc 0 \<and> Suc 0 < Suc (Suc 0)" by simp
  note B1 = B[THEN conjunct1]
  note B2 = B[THEN conjunct2, THEN spec, THEN spec, THEN mp, OF ab]
  show ?thesis
    apply (rule conjI)
     apply (rule exI[of _ s])
     apply (rule conjI[OF run A])
    apply (rule conjI[OF pool])
    apply (rule conjI[OF B1 B2])
    done
qed

text \<open>
  C10. That the program always proceeds past the stop-time check into the assembly fails
  for an execution in which the command-line helper ends the process: with the argument
  \<open>--PrintHelp\<close> the process ends with exit code 0 before the check, and no node, no
  channel and no device has been created.
\<close>

theorem assembly_not_entered_on_help:
  "fst (main help_request [''taller'', ''--PrintHelp''] lcg_uni unat 7) = Exited 0 \<and>
   node_count (snd (main help_request [''taller'', ''--PrintHelp''] lcg_uni unat 7)) = 0 \<and>
   channels (snd (main help_request [''taller'', ''--PrintHelp''] lcg_uni unat 7)) = [] \<and>
   devices (snd (main help_request [''taller'', ''--PrintHelp''] lcg_uni unat 7)) = []"
  by (simp add: main_def help_request_def initial_def)

text \<open>
  C10, as amended. The stop time is the constant 20 and no command-line value is
  registered, so the condition of the check is false and its failing branch (the
  diagnostic and \<open>exit (1)\<close>) is taken in no execution. Every execution in which the
  command-line helper returns is the body of \<open>main\<close> with the parameters of the source:
  it writes nothing to the standard output, goes on into the assembly (a channel is
  created) and does not leave through an exit code other than 0. An execution in which
  the helper ends the process stops before the check and before any assembly, in the
  initial state, with the helper's output and exit code.
\<close>

theorem stop_check_never_taken:
  "\<not> stopTime shipped < 10 \<and>
   (Parse argv = None \<longrightarrow>
      main Parse argv uni mt19937 rd = main_body shipped uni (mt19937 rd) \<and>
      cout (snd (main Parse argv uni mt19937 rd)) = [] \<and>
      channels (snd (main Parse argv uni mt19937 rd)) \<noteq> [] \<and>
      (\<forall>n. fst (main Parse argv uni mt19937 rd) \<noteq> Exited (Suc n))) \<and>
   (\<forall>out c. Parse argv = Some (out, c) \<longrightarrow>
      main Parse argv uni mt19937 rd = (Exited c, (initial (mt19937 rd))\<lparr>cout := out\<rparr>))"
proof -
  have chk: "\<not> stopTime shipped < 10"
    by (simp add: shipped_def)
  have a: "main Parse argv uni mt19937 rd = main_body shipped uni (mt19937 rd) \<and>
      cout (snd (main Parse argv uni mt19937 rd)) = [] \<and>
      channels (snd (main Parse argv uni mt19937 rd)) \<noteq> [] \<and>
      (\<forall>n. fst (main Parse argv uni mt19937 rd) \<noteq> Exited (Suc n))"
    if "Parse argv = None"
  proof -
    from that have m: "main Parse argv uni mt19937 rd = main_body shipped uni (mt19937 rd)"
      by (simp add: main_def)
    from past_check[OF chk, of uni "mt19937 rd"] show ?thesis
      unfolding m by auto
  qed
  have b: "main Parse argv uni mt19937 rd = (Exited c, (initial (mt19937 rd))\<lparr>cout := out\<rparr>)"
    if "Parse argv = Some (out, c)" for out c
    using that by (simp add: main_def)
  from chk a b show ?thesis by blast
qed

theorem stop_check_never_taken_witness:
  "help_request [''taller''] = None \<and>
   main help_request [''taller''] lcg_uni unat 7 = main_body shipped lcg_uni (unat (7 :: uint32_t)) \<and>
   cout (snd (main help_request [''taller''] lcg_uni unat 7)) = [] \<and>
   channels (snd (main help_request [''taller''] lcg_uni unat 7)) \<noteq> [] \<and>
   (\<forall>n. fst (main help_request [''taller''] lcg_uni unat 7) \<noteq> Exited (Suc n)) \<and>
   help_request [''taller'', ''--PrintHelp''] = Some ([''usage''], 0) \<and>
   main help_request [''taller'', ''--PrintHelp''] lcg_uni unat 7 =
     (Exited 0, (initial (unat (7 :: uint32_t)))\<lparr>cout := [''usage'']\<rparr>)"
proof -
  have n: "help_request [''taller''] = None"
    and h: "help_request [''taller'', ''--PrintHelp''] = Some ([''usage''], 0)"
    by (simp_all add: help_request_def)
  from stop_check_never_taken [of help_request "[''taller'']" lcg_uni unat 7]
    stop_check_never_taken [of help_request "[''taller'', ''--PrintHelp'']" lcg_uni unat 7] n h
  show ?thesis by blast
qed

text \<open>
  C8. Take two runs with the same number of clusters, the same sizes and the same seed, on
  a configuration on which the assembly is defined (the stop times may differ, both at
  least 10). Both runs complete, and they build the same topology: the same interface
  addresses, devices, channels, containers, representatives and positions. In both,
  every cluster \<open>i\<close> has its addresses in the subnet \<open>pool_base i\<close>/24 and the backbone
  in 172.16.0.0/24, the same number is drawn for cluster \<open>i\<close>, it is an index into the
  cluster, and the representative of cluster \<open>i\<close> is the cluster's node at that index.
\<close>

theorem same_seed_same_topology:
  assumes c: "clusterHeadNodes cfg1 = clusterHeadNodes cfg2"
    and n: "infraNodes cfg1 = infraNodes cfg2"
    and v: "valid_config cfg1" and t2: "10 \<le> stopTime cfg2"
    and ib: "in_bounds uni"
  shows "\<exists>s1 s2.
      main_body cfg1 uni (mt19937 seed) = (Exited 0, s1) \<and>
      main_body cfg2 uni (mt19937 seed) = (Exited 0, s2) \<and>
      addresses s1 = addresses s2 \<and> devices s1 = devices s2 \<and> channels s1 = channels s2 \<and>
      clusters s1 = clusters s2 \<and> clusterDevices s1 = clusterDevices s2 \<and>
      head_cluster s1 = head_cluster s2 \<and> head_clusterDevices s1 = head_clusterDevices s2 \<and>
      positions s1 = positions s2 \<and>
      length (clusters s1) = cluster_count cfg1 \<and>
      length (head_cluster s1) = cluster_count cfg1 \<and>
      (\<forall>i. i < cluster_count cfg1 \<longrightarrow>
         container_subnets s1 (clusterDevices s1 ! i) = {(pool_base i, ipv4 255 255 255 0)} \<and>
         container_subnets s2 (clusterDevices s2 ! i) = {(pool_base i, ipv4 255 255 255 0)} \<and>
         draw cfg1 uni (mt19937 seed) i = draw cfg2 uni (mt19937 seed) i \<and>
         0 \<le> draw cfg1 uni (mt19937 seed) i \<and>
         nat (draw cfg1 uni (mt19937 seed) i) < unat (infraNodes cfg1 ! i) \<and>
         head_cluster s1 ! i = clusters s1 ! i ! nat (draw cfg1 uni (mt19937 seed) i) \<and>
         head_cluster s2 ! i = clusters s2 ! i ! nat (draw cfg2 uni (mt19937 seed) i)) \<and>
      (0 < cluster_count cfg1 \<longrightarrow>
         container_subnets s1 (head_clusterDevices s1) =
           {(ipv4 172 16 0 0, ipv4 255 255 255 0)} \<and>
         container_subnets s2 (head_clusterDevices s2) =
           {(ipv4 172 16 0 0, ipv4 255 255 255 0)})"
proof -
  define g where "g = mt19937 seed"
  have k: "cluster_count cfg2 = cluster_count cfg1" by (simp add: cluster_count_def c)
  have v2: "valid_config cfg2"
    using v t2 by (simp add: valid_config_def c n)
  from main_body_total[OF v ib, of g] obtain s1 where r1: "main_body cfg1 uni g = (Exited 0, s1)"
    by blast
  from main_body_total[OF v2 ib, of g] obtain s2 where r2: "main_body cfg2 uni g = (Exited 0, s2)"
    by blast
  have s1: "\<not> stopTime cfg1 < 10" using main_body_Exited[OF r1] by simp
  have s2: "\<not> stopTime cfg2 < 10" using main_body_Exited[OF r2] by simp
  note lb = loop_body_cong[OF n, of uni]
  have gen: "gen cfg1 uni g i = gen cfg2 uni g i" for i
    by (induction i) (simp_all add: n)
  then have dr: "draw cfg1 uni g i = draw cfg2 uni g i" for i
    by (simp add: draw_def n)
  have sim: "simulate cfg1 t = (simulate cfg2 t)\<lparr>stop_at := Some (unat (stopTime cfg1))\<rparr>"
    for t :: "'a state"
    by (simp add: simulate_def)
  have "snd (main_body cfg1 uni g) =
          (snd (main_body cfg2 uni g))\<lparr>stop_at := stop_at (snd (main_body cfg1 uni g))\<rparr>"
    unfolding main_body_unfold[OF s1] main_body_unfold[OF s2] k lb
    by (simp add: sim split: sum.splits prod.splits)
  then have e: "s1 = s2\<lparr>stop_at := stop_at s1\<rparr>" by (simp add: r1 r2)
  have same: "addresses s1 = addresses s2" "devices s1 = devices s2" "channels s1 = channels s2"
    "clusters s1 = clusters s2" "clusterDevices s1 = clusterDevices s2"
    "head_cluster s1 = head_cluster s2" "head_clusterDevices s1 = head_clusterDevices s2"
    "positions s1 = positions s2"
    by (subst e, simp)+
  have lens: "length (clusters s1) = cluster_count cfg1" "length (head_cluster s1) = cluster_count cfg1"
    using run_containers[OF r1] run_sizes[OF r1] by simp_all
  have per: "container_subnets s1 (clusterDevices s1 ! i) = {(pool_base i, ipv4 255 255 255 0)} \<and>
         container_subnets s2 (clusterDevices s2 ! i) = {(pool_base i, ipv4 255 255 255 0)} \<and>
         draw cfg1 uni g i = draw cfg2 uni g i \<and>
         0 \<le> draw cfg1 uni g i \<and>
         nat (draw cfg1 uni g i) < unat (infraNodes cfg1 ! i) \<and>
         head_cluster s1 ! i = clusters s1 ! i ! nat (draw cfg1 uni g i) \<and>
         head_cluster s2 ! i = clusters s2 ! i ! nat (draw cfg2 uni g i)"
    if i: "i < cluster_count cfg1" for i
  proof -
    from i k have i2: "i < cluster_count cfg2" by simp
    from run_backbone[OF r1 i]
    have h1: "head_cluster s1 ! i = first_node cfg1 i + nat (draw cfg1 uni g i)"
      and d1: "nat (draw cfg1 uni g i) < unat (infraNodes cfg1 ! i)" by simp_all
    have p1: "head_cluster s1 ! i = clusters s1 ! i ! nat (draw cfg1 uni g i)"
      using d1 by (simp add: h1 run_cluster_nth[OF r1 i])
    from run_backbone[OF r2 i2]
    have h2: "head_cluster s2 ! i = first_node cfg2 i + nat (draw cfg2 uni g i)"
      and d2: "nat (draw cfg2 uni g i) < unat (infraNodes cfg2 ! i)" by simp_all
    have p2: "head_cluster s2 ! i = clusters s2 ! i ! nat (draw cfg2 uni g i)"
      using d2 by (simp add: h2 run_cluster_nth[OF r2 i2])
    from main_body_Exited[OF r1] obtain t where "assembled cfg1 uni g (cluster_count cfg1) t"
      by blast
    with i have d0: "0 \<le> draw cfg1 uni g i"
      unfolding assembled_def inv_head_def by blast
    from run_cluster_subnets[OF r1 i] run_cluster_subnets[OF r2 i2] dr d0 d1 p1 p2
    show ?thesis by blast
  qed
  have bb: "container_subnets s1 (head_clusterDevices s1) =
           {(ipv4 172 16 0 0, ipv4 255 255 255 0)} \<and>
         container_subnets s2 (head_clusterDevices s2) =
           {(ipv4 172 16 0 0, ipv4 255 255 255 0)}"
    if pos: "0 < cluster_count cfg1"
  proof -
    from pos k have pos2: "0 < cluster_count cfg2" by simp
    from run_backbone_subnets(1)[OF r1] run_backbone_subnets(2)[OF r1 pos]
      run_backbone_subnets(1)[OF r2] run_backbone_subnets(2)[OF r2 pos2]
    show ?thesis by blast
  qed
  have P: "\<forall>i. i < cluster_count cfg1 \<longrightarrow>
         container_subnets s1 (clusterDevices s1 ! i) = {(pool_base i, ipv4 255 255 255 0)} \<and>
         container_subnets s2 (clusterDevices s2 ! i) = {(pool_base i, ipv4 255 255 255 0)} \<and>
         draw cfg1 uni g i = draw cfg2 uni g i \<and>
         0 \<le> draw cfg1 uni g i \<and>
         nat (draw cfg1 uni g i) < unat (infraNodes cfg1 ! i) \<and>
         head_cluster s1 ! i = clusters s1 ! i ! nat (draw cfg1 uni g i) \<and>
         head_cluster s2 ! i = clusters s2 ! i ! nat (draw cfg2 uni g i)"
    using per by blast
  have B: "0 < cluster_count cfg1 \<longrightarrow>
         container_subnets s1 (head_clusterDevices s1) =
           {(ipv4 172 16 0 0, ipv4 255 255 255 0)} \<and>
         container_subnets s2 (head_clusterDevices s2) =
           {(ipv4 172 16 0 0, ipv4 255 255 255 0)}"
    using bb by blast
  from r1 r2 same lens P B show ?thesis
    unfolding g_def
    apply (rule_tac x = s1 in exI)
    apply (rule_tac x = s2 in exI)
    apply (intro conjI)
    apply assumption+
    done
qed

theorem same_seed_same_topology_witness:
  "clusterHeadNodes shipped = clusterHeadNodes (shipped\<lparr>stopTime := 30\<rparr>) \<and>
   infraNodes shipped = infraNodes (shipped\<lparr>stopTime := 30\<rparr>) \<and>
   valid_config shipped \<and> 10 \<le> stopTime (shipped\<lparr>stopTime := 30\<rparr>) \<and> in_bounds lcg_uni \<and>
   (\<exists>s1 s2.
      main_body shipped lcg_uni (unat (7 :: uint32_t)) = (Exited 0, s1) \<and>
      main_body (shipped\<lparr>stopTime := 30\<rparr>) lcg_uni (unat (7 :: uint32_t)) = (Exited 0, s2) \<and>
      addresses s1 = addresses s2 \<and> devices s1 = devices s2 \<and> channels s1 = channels s2 \<and>
      clusters s1 = clusters s2 \<and> clusterDevices s1 = clusterDevices s2 \<and>
      head_cluster s1 = head_cluster s2 \<and> head_clusterDevices s1 = head_clusterDevices s2 \<and>
      positions s1 = positions s2 \<and>
      length (clusters s1) = cluster_count shipped \<and>
      length (head_cluster s1) = cluster_count shipped \<and>
      (\<forall>i. i < cluster_count shipped \<longrightarrow>
         container_subnets s1 (clusterDevices s1 ! i) = {(pool_base i, ipv4 255 255 255 0)} \<and>
         container_subnets s2 (clusterDevices s2 ! i) = {(pool_base i, ipv4 255 255 255 0)} \<and>
         draw shipped lcg_uni (unat (7 :: uint32_t)) i =
           draw (shipped\<lparr>stopTime := 30\<rparr>) lcg_uni (unat (7 :: uint32_t)) i \<and>
         0 \<le> draw shipped lcg_uni (unat (7 :: uint32_t)) i \<and>
         nat (draw shipped lcg_uni (unat (7 :: uint32_t)) i) < unat (infraNodes shipped ! i) \<and>
         head_cluster s1 ! i = clusters s1 ! i ! nat (draw shipped lcg_uni (unat (7 :: uint32_t)) i) \<and>
         head_cluster s2 ! i =
           clusters s2 ! i ! nat (draw (shipped\<lparr>stopTime := 30\<rparr>) lcg_uni (unat (7 :: uint32_t)) i)) \<and>
      (0 < cluster_count shipped \<longrightarrow>
         container_subnets s1 (head_clusterDevices s1) =
           {(ipv4 172 16 0 0, ipv4 255 255 255 0)} \<and>
         container_subnets s2 (head_clusterDevices s2) =
           {(ipv4 172 16 0 0, ipv4 255 255 255 0)}))"
proof -
  have h: "clusterHeadNodes shipped = clusterHeadNodes (shipped\<lparr>stopTime := 30\<rparr>)"
    "infraNodes shipped = infraNodes (shipped\<lparr>stopTime := 30\<rparr>)"
    "valid_config shipped" "10 \<le> stopTime (shipped\<lparr>stopTime := 30\<rparr>)" "in_bounds lcg_uni"
    by (simp_all add: shipped_valid lcg_uni_in_bounds)
  from h same_seed_same_topology [OF h, of unat 7] show ?thesis
    by (intro conjI)
qed

text \<open>
  C7. The reference run: with the configuration written in the source (two
  clusters of sizes 4 and 3, pools 192.167.0.0/24 and 192.168.0.0/24, backbone
  172.16.0.0/24, stop time 20) the assembly completes and produces exactly 7
  nodes, numbered 0..3 for the first cluster and 4..6 for the second; exactly 2
  representatives, distinct, one from each cluster; two wireless channels and
  exactly one wired channel, whose devices sit on exactly the 2
  representatives; each cluster's devices carry addresses of that cluster's
  subnet only and the backbone's devices addresses of 172.16.0.0/24 only; the
  engine is stopped at simulated time 20, run, and destroyed.
\<close>

theorem reference_run:
  assumes ib: "in_bounds uni"
  shows "\<exists>s. main_body shipped uni g = (Exited 0, s) \<and>
    node_count s = 7 \<and>
    clusters s = [[0, Suc 0, 2, 3], [4, 5, 6]] \<and>
    length (head_cluster s) = 2 \<and> distinct (head_cluster s) \<and>
    head_cluster s ! 0 \<in> set (clusters s ! 0) \<and>
    head_cluster s ! Suc 0 \<in> set (clusters s ! Suc 0) \<and>
    channels s = [YansWifiChannel, YansWifiChannel, CsmaChannel] \<and>
    length (devices s) = 9 \<and>
    map fst (filter (\<lambda>d. snd d = 2) (devices s)) = head_cluster s \<and>
    container_subnets s (clusterDevices s ! 0) = {(ipv4 192 167 0 0, ipv4 255 255 255 0)} \<and>
    container_subnets s (clusterDevices s ! Suc 0) = {(ipv4 192 168 0 0, ipv4 255 255 255 0)} \<and>
    container_subnets s (head_clusterDevices s) = {(ipv4 172 16 0 0, ipv4 255 255 255 0)} \<and>
    stop_at s = Some 20 \<and> run_done s \<and> destroyed s"
proof -
  from main_body_total[OF shipped_valid ib, of g]
  obtain s where run: "main_body shipped uni g = (Exited 0, s)" by blast
  note k = shipped_count
  have sn2: "first_node shipped (Suc (Suc 0)) = 7"
    using shipped_first_node(3) by (simp only: numeral_2_eq_2)
  have i0: "0 < cluster_count shipped" and i1: "Suc 0 < cluster_count shipped"
    by (simp_all add: k)
  have c1: "node_count s = 7" and c4: "length (head_cluster s) = 2"
    and c5: "distinct (head_cluster s)" and c9: "length (devices s) = 9"
    using run_sizes[OF run] by (simp_all add: k shipped_first_node)
  have c2: "clusters s = [[0, Suc 0, 2, 3], [4, 5, 6]]"
    using run_containers[OF run]
    by (simp add: k upt_0_2 shipped_first_node sn2 upt_0_4 upt_4_7)
  have c6: "head_cluster s ! 0 \<in> set (clusters s ! 0)"
    by (rule run_head(1)[OF run i0])
  have c7: "head_cluster s ! Suc 0 \<in> set (clusters s ! Suc 0)"
    by (rule run_head(1)[OF run i1])
  have c8: "channels s = [YansWifiChannel, YansWifiChannel, CsmaChannel]"
    using run_channels[OF run] by (simp add: k numeral_2_eq_2)
  have c10: "map fst (filter (\<lambda>d. snd d = 2) (devices s)) = head_cluster s"
    using run_backbone_devices[OF run] by (simp add: k)
  have c11: "container_subnets s (clusterDevices s ! 0) = {(ipv4 192 167 0 0, ipv4 255 255 255 0)}"
    using run_cluster_subnets[OF run i0] by (simp add: pool_base_vals)
  have c12: "container_subnets s (clusterDevices s ! Suc 0) =
      {(ipv4 192 168 0 0, ipv4 255 255 255 0)}"
    using run_cluster_subnets[OF run i1] by (simp add: pool_base_vals)
  have c13: "container_subnets s (head_clusterDevices s) = {(ipv4 172 16 0 0, ipv4 255 255 255 0)}"
    using run_backbone_subnets(1)[OF run] run_backbone_subnets(2)[OF run i0] by blast
  have c14: "stop_at s = Some 20" "run_done s" "destroyed s"
    using run_engine[OF run] by (simp_all add: shipped_def)
  from run c1 c2 c4 c5 c6 c7 c8 c9 c10 c11 c12 c13 c14 show ?thesis
    apply (rule_tac x = s in exI)
    apply (intro conjI)
    apply assumption+
    done
qed

theorem reference_run_witness:
  "in_bounds lcg_uni \<and>
   (\<exists>s. main_body shipped lcg_uni 7 = (Exited 0, s) \<and>
    node_count s = 7 \<and>
    clusters s = [[0, Suc 0, 2, 3], [4, 5, 6]] \<and>
    length (head_cluster s) = 2 \<and> distinct (head_cluster s) \<and>
    head_cluster s ! 0 \<in> set (clusters s ! 0) \<and>
    head_cluster s ! Suc 0 \<in> set (clusters s ! Suc 0) \<and>
    channels s = [YansWifiChannel, YansWifiChannel, CsmaChannel] \<and>
    length (devices s) = 9 \<and>
    map fst (filter (\<lambda>d. snd d = 2) (devices s)) = head_cluster s \<and>
    container_subnets s (clusterDevices s ! 0) = {(ipv4 192 167 0 0, ipv4 255 255 255 0)} \<and>
    container_subnets s (clusterDevices s ! Suc 0) = {(ipv4 192 168 0 0, ipv4 255 255 255 0)} \<and>
    container_subnets s (head_clusterDevices s) = {(ipv4 172 16 0 0, ipv4 255 255 255 0)} \<and>
    stop_at s = Some 20 \<and> run_done s \<and> destroyed s)"
  by (rule conjI[OF lcg_uni_in_bounds reference_run [OF lcg_uni_in_bounds, of 7]])

text \<open>
  C6. That a cluster size of 0 is detected before any resource is created, reported
  and answered with a non-zero exit status fails: \<open>main\<close> checks the stop time only.
  With the sizes 4 and 0 and the stop time 20 of the source nothing is written to the
  standard output, the four nodes of the first cluster and both wireless channels are
  created, and the run does not end with an exit status: it leaves defined behaviour at
  the draw for the empty cluster, whose upper bound \<open>infraNodes[i]-1\<close> is below its
  lower bound 0.
\<close>

theorem zero_size_cluster_runs:
  "fst (main_body (shipped\<lparr>infraNodes := [4, 0]\<rparr>) lcg_uni 7) = Undefined \<and>
   cout (snd (main_body (shipped\<lparr>infraNodes := [4, 0]\<rparr>) lcg_uni 7)) = [] \<and>
   node_count (snd (main_body (shipped\<lparr>infraNodes := [4, 0]\<rparr>) lcg_uni 7)) = 4 \<and>
   channels (snd (main_body (shipped\<lparr>infraNodes := [4, 0]\<rparr>) lcg_uni 7)) =
     [YansWifiChannel, YansWifiChannel]"
proof -
  define cfg where "cfg = shipped\<lparr>infraNodes := [4, 0]\<rparr>"
  have st: "\<not> stopTime cfg < 10" by (simp add: cfg_def shipped_def)
  have k: "cluster_count cfg = 2" by (simp add: cfg_def cluster_count_def shipped_def)
  have k3: "cluster_count cfg \<le> 3" and kl: "cluster_count cfg \<le> length (infraNodes cfg)"
    and j: "Suc 0 < cluster_count cfg"
    by (simp_all add: k) (simp add: cfg_def)
  have z: "infraNodes cfg ! Suc 0 = 0" by (simp add: cfg_def)
  have pre: "1 \<le> infraNodes cfg ! i \<and> infraNodes cfg ! i \<le> 254" if "i < Suc 0" for i
    using that by (simp add: cfg_def)
  have fn: "first_node cfg (Suc 0) = 4" by (simp add: first_node_def cfg_def)
  from zero_size_run[OF lcg_uni_in_bounds st k3 kl j z pre, of 7]
  obtain s where m: "main_body cfg lcg_uni 7 = (Undefined, s)" and c: "cout s = []"
    and ch: "channels s = replicate (Suc (Suc 0)) YansWifiChannel"
    and nc: "node_count s = first_node cfg (Suc 0)"
    by blast
  show ?thesis
    unfolding cfg_def[symmetric] by (simp add: m c ch nc fn)
qed

text \<open>
  C6, as amended. The sizes are unsigned, so a size is never negative, and \<open>main\<close> has
  no check of the sizes. Take a configuration that passes the stop-time check, with at
  most three clusters, in which cluster \<open>j\<close> is the first of size 0 and the clusters
  before it have sizes from 1 to 254. Then no diagnostic is written and the process does
  not exit with a status: the clusters before \<open>j\<close> are built with all their nodes and
  their representatives, the channel and the empty containers of cluster \<open>j\<close> are
  created, and the run leaves defined behaviour at the draw of the representative of
  cluster \<open>j\<close>, before the backbone is built and before the engine runs.
\<close>

theorem zero_size_not_detected:
  assumes ib: "in_bounds uni" and st: "\<not> stopTime cfg < 10"
    and k3: "cluster_count cfg \<le> 3" and kl: "cluster_count cfg \<le> length (infraNodes cfg)"
    and j: "j < cluster_count cfg" and z: "infraNodes cfg ! j \<le> 0"
    and pre: "\<forall>i. i < j \<longrightarrow> 1 \<le> infraNodes cfg ! i \<and> infraNodes cfg ! i \<le> 254"
  shows "\<exists>s. main_body cfg uni g = (Undefined, s) \<and> cout s = [] \<and> \<not> run_done s \<and>
           channels s = replicate (Suc j) YansWifiChannel \<and>
           node_count s = first_node cfg j \<and>
           length (clusters s) = Suc j \<and> clusters s ! j = [] \<and>
           length (head_cluster s) = j"
proof -
  from z have z0: "infraNodes cfg ! j = 0" by simp
  from pre have p: "\<And>i. i < j \<Longrightarrow> 1 \<le> infraNodes cfg ! i \<and> infraNodes cfg ! i \<le> 254"
    by simp
  show ?thesis by (rule zero_size_run[OF ib st k3 kl j z0 p])
qed

theorem zero_size_not_detected_witness:
  "in_bounds lcg_uni \<and>
   \<not> stopTime (shipped\<lparr>clusterHeadNodes := 3, infraNodes := [4, 3, 0]\<rparr>) < 10 \<and>
   cluster_count (shipped\<lparr>clusterHeadNodes := 3, infraNodes := [4, 3, 0]\<rparr>) \<le> 3 \<and>
   cluster_count (shipped\<lparr>clusterHeadNodes := 3, infraNodes := [4, 3, 0]\<rparr>) \<le>
     length (infraNodes (shipped\<lparr>clusterHeadNodes := 3, infraNodes := [4, 3, 0]\<rparr>)) \<and>
   2 < cluster_count (shipped\<lparr>clusterHeadNodes := 3, infraNodes := [4, 3, 0]\<rparr>) \<and>
   infraNodes (shipped\<lparr>clusterHeadNodes := 3, infraNodes := [4, 3, 0]\<rparr>) ! 2 \<le> 0 \<and>
   1 \<le> infraNodes (shipped\<lparr>clusterHeadNodes := 3, infraNodes := [4, 3, 0]\<rparr>) ! 0 \<and>
   infraNodes (shipped\<lparr>clusterHeadNodes := 3, infraNodes := [4, 3, 0]\<rparr>) ! 0 \<le> 254 \<and>
   1 \<le> infraNodes (shipped\<lparr>clusterHeadNodes := 3, infraNodes := [4, 3, 0]\<rparr>) ! 1 \<and>
   infraNodes (shipped\<lparr>clusterHeadNodes := 3, infraNodes := [4, 3, 0]\<rparr>) ! 1 \<le> 254 \<and>
   (\<exists>s. main_body (shipped\<lparr>clusterHeadNodes := 3, infraNodes := [4, 3, 0]\<rparr>) lcg_uni 7 =
          (Undefined, s) \<and>
        cout s = [] \<and> \<not> run_done s \<and>
        channels s = [YansWifiChannel, YansWifiChannel, YansWifiChannel] \<and>
        node_count s = 7 \<and> length (clusters s) = 3 \<and> clusters s ! 2 = [] \<and>
        length (head_cluster s) = 2)"
proof -
  define cfg where "cfg = shipped\<lparr>clusterHeadNodes := 3, infraNodes := [4, 3, 0]\<rparr>"
  have st: "\<not> stopTime cfg < 10" by (simp add: cfg_def shipped_def)
  have k: "cluster_count cfg = 3" by (simp add: cfg_def cluster_count_def)
  have k3: "cluster_count cfg \<le> 3" and kl: "cluster_count cfg \<le> length (infraNodes cfg)"
    and j: "2 < cluster_count cfg"
    by (simp_all add: k) (simp add: cfg_def)
  have z: "infraNodes cfg ! 2 \<le> 0" by (simp add: cfg_def)
  have s0: "1 \<le> infraNodes cfg ! 0 \<and> infraNodes cfg ! 0 \<le> 254"
    and s1: "1 \<le> infraNodes cfg ! 1 \<and> infraNodes cfg ! 1 \<le> 254"
    by (simp_all add: cfg_def)
  have pre: "\<forall>i. i < 2 \<longrightarrow> 1 \<le> infraNodes cfg ! i \<and> infraNodes cfg ! i \<le> 254"
  proof (intro allI impI)
    fix i :: nat assume "i < 2"
    then have "i = 0 \<or> i = 1" by auto
    with s0 s1 show "1 \<le> infraNodes cfg ! i \<and> infraNodes cfg ! i \<le> 254" by auto
  qed
  have fn: "first_node cfg 2 = 7" by (simp add: first_node_def cfg_def)
  from zero_size_not_detected [OF lcg_uni_in_bounds st k3 kl j z pre, of 7]
  obtain s where m: "main_body cfg lcg_uni 7 = (Undefined, s)" and c: "cout s = []"
    and nr: "\<not> run_done s"
    and ch: "channels s = replicate (Suc 2) YansWifiChannel"
    and nc: "node_count s = first_node cfg 2"
    and lc: "length (clusters s) = Suc 2" and ce: "clusters s ! 2 = []"
    and lh: "length (head_cluster s) = 2"
    by blast
  have ex: "\<exists>s. main_body cfg lcg_uni 7 = (Undefined, s) \<and>
        cout s = [] \<and> \<not> run_done s \<and>
        channels s = [YansWifiChannel, YansWifiChannel, YansWifiChannel] \<and>
        node_count s = 7 \<and> length (clusters s) = 3 \<and> clusters s ! 2 = [] \<and>
        length (head_cluster s) = 2"
    apply (rule exI[of _ s])
    using m c nr ch nc lc ce lh by (simp add: fn numeral_3_eq_3)
  from s0 s1 have s0a: "1 \<le> infraNodes cfg ! 0" and s0b: "infraNodes cfg ! 0 \<le> 254"
    and s1a: "1 \<le> infraNodes cfg ! 1" and s1b: "infraNodes cfg ! 1 \<le> 254" by simp_all
  show ?thesis
    unfolding cfg_def[symmetric]
    using lcg_uni_in_bounds st k3 kl j z s0a s0b s1a s1b ex
    by (intro conjI)
qed

end
